theory Spec2Isabelle
  imports Main "HOL-Library.AList"
begin

section \<open>Wire events and chat messages (front-end/src/api/types/chats.ts)\<close>

text \<open>
  \<open>StreamMessageResponse\<close> is the event the stream client hands to its caller. The
  optional, nullable string fields are options: \<open>None\<close> stands for both
  \<open>undefined\<close> and \<open>null\<close> (the handler only tests them for truthiness).
  \<open>status\<close> is a string: the TypeScript union \<open>StreamStatus\<close> is erased at run time
  and the handler compares it with string literals.
\<close>

record StreamMessageResponse =
  status :: string
  error :: "string option"
  response :: string
  tool_name :: "string option"
  tool_args :: "string option"
  tool_result :: "string option"
  info :: "string option"

datatype StepType = Text | Tool

text \<open>The field \<open>type\<close> of \<open>StreamStep\<close> is called \<open>step_type\<close> here.\<close>

record StreamStep =
  step_type :: StepType
  content :: "string option"
  toolName :: "string option"
  toolArgs :: "string option"
  toolResult :: "string option"
  isLoading :: "bool option"

text \<open>
  The field \<open>id\<close> of \<open>Message\<close> is called \<open>msg_id\<close> here;
  \<open>json_message_history\<close> is opaque to the client and kept as its serialised text.
\<close>

record Message =
  msg_id :: int
  sent_at :: string
  message :: string
  response :: "string option"
  input_tokens :: int
  reasoning_tokens :: int
  output_tokens :: int
  json_message_history :: "string option"
  chat_id :: string
  steps :: "StreamStep list option"

section \<open>The stream handler of the chat page (front-end/src/pages/ChatPage.tsx)\<close>

text \<open>JavaScript's \<open>v || d\<close> on an optional string: the empty string is falsy.\<close>

definition str_or :: "string option \<Rightarrow> string \<Rightarrow> string" where
  "str_or v d = (case v of None \<Rightarrow> d | Some s \<Rightarrow> if s = [] then d else s)"

text \<open>\<open>v || undefined\<close>.\<close>

definition str_or_undefined :: "string option \<Rightarrow> string option" where
  "str_or_undefined v = (case v of None \<Rightarrow> None | Some s \<Rightarrow> if s = [] then None else Some s)"

text \<open>\<open>msg.steps || []\<close>.\<close>

definition stepsOrEmpty :: "Message \<Rightarrow> StreamStep list" where
  "stepsOrEmpty msg = (case steps msg of None \<Rightarrow> [] | Some ss \<Rightarrow> ss)"

text \<open>The optimistic message appended before the stream starts (lines 146-156).\<close>

definition optimisticMessage :: "int \<Rightarrow> string \<Rightarrow> string \<Rightarrow> string \<Rightarrow> Message" where
  "optimisticMessage tempId now question chatId =
     \<lparr>msg_id = tempId, sent_at = now, message = question, response = Some [],
      input_tokens = 0, reasoning_tokens = 0, output_tokens = 0,
      json_message_history = None, chat_id = chatId, steps = Some []\<rparr>"

text \<open>The object literals pushed onto \<open>steps\<close>: fields not written are \<open>undefined\<close>.\<close>

definition textStep :: "string \<Rightarrow> StreamStep" where
  "textStep r = \<lparr>step_type = Text, content = Some r, toolName = None, toolArgs = None,
                 toolResult = None, isLoading = None\<rparr>"

definition toolStep :: "StreamMessageResponse \<Rightarrow> StreamStep" where
  "toolStep data = \<lparr>step_type = Tool, content = None,
                      toolName = Some (str_or (tool_name data) ''Unknown Tool''),
                      toolArgs = str_or_undefined (tool_args data),
                      toolResult = None, isLoading = Some True\<rparr>"

text \<open>A step the \<open>tool_result\<close> loop stops at: a tool step whose \<open>isLoading\<close> is truthy.\<close>

definition running :: "StreamStep \<Rightarrow> bool" where
  "running s = (step_type s = Tool \<and> isLoading s = Some True)"

definition finishStep :: "StreamMessageResponse \<Rightarrow> StreamStep \<Rightarrow> StreamStep" where
  "finishStep data s = s\<lparr>toolResult := Some (str_or (tool_result data) []), isLoading := Some False\<rparr>"

text \<open>
  The loop \<open>for (let i = steps.length - 1; i >= 0; i--)\<close> of the \<open>tool_result\<close>
  case: \<open>setLastRunning (Suc i)\<close> is the loop at index \<open>i\<close>, \<open>setLastRunning 0\<close>
  is the loop's exit without a match. It is started at \<open>length ss\<close>, so every index
  it reads is in range.
\<close>

fun setLastRunning :: "nat \<Rightarrow> StreamMessageResponse \<Rightarrow> StreamStep list \<Rightarrow> StreamStep list" where
  "setLastRunning 0 data ss = ss"
| "setLastRunning (Suc i) data ss =
     (if running (ss ! i) then ss[i := finishStep data (ss ! i)]
      else setLastRunning i data ss)"

text \<open>The \<open>response\<close> case, on the copied step list (lines 176-188).\<close>

definition pushResponse :: "string \<Rightarrow> StreamStep list \<Rightarrow> StreamStep list" where
  "pushResponse r ss =
     (if ss \<noteq> [] \<and> step_type (ss ! (length ss - 1)) = Text
      then ss[length ss - 1 :=
              (ss ! (length ss - 1))\<lparr>content := Some (str_or (content (ss ! (length ss - 1))) [] @ r)\<rparr>]
      else ss @ [textStep r])"

text \<open>
  The \<open>switch (data.status)\<close> on \<open>newMsg\<close>, whose \<open>steps\<close> is the fresh copy
  \<open>[...(msg.steps || [])]\<close>. Statuses other than \<open>response\<close>, \<open>tool_call\<close> and
  \<open>tool_result\<close> match no case.
\<close>

definition applyEvent :: "StreamMessageResponse \<Rightarrow> Message \<Rightarrow> Message" where
  "applyEvent data msg =
     (let newMsg = msg\<lparr>steps := Some (stepsOrEmpty msg)\<rparr>;
          ss = stepsOrEmpty msg
      in if status data = ''response'' then
           (if StreamMessageResponse.response data \<noteq> [] then
              newMsg\<lparr>steps := Some (pushResponse (StreamMessageResponse.response data) ss),
                     Message.response :=
                       Some (str_or (Message.response newMsg) [] @ StreamMessageResponse.response data)\<rparr>
            else newMsg)
         else if status data = ''tool_call'' then
           newMsg\<lparr>steps := Some (ss @ [toolStep data])\<rparr>
         else if status data = ''tool_result'' then
           newMsg\<lparr>steps := Some (setLastRunning (length ss) data ss)\<rparr>
         else newMsg)"

text \<open>The callback passed to \<open>streamQuestion\<close>: \<open>prev.map(msg => ...)\<close> (lines 167-218).\<close>

definition updateMsg :: "int \<Rightarrow> StreamMessageResponse \<Rightarrow> Message \<Rightarrow> Message" where
  "updateMsg tempId data msg = (if msg_id msg \<noteq> tempId then msg else applyEvent data msg)"

definition onMessage :: "int \<Rightarrow> StreamMessageResponse \<Rightarrow> Message list \<Rightarrow> Message list" where
  "onMessage tempId data prev = map (updateMsg tempId data) prev"

text \<open>The chat state after the callback has run on each event of a stream, in arrival order.\<close>

definition processStream :: "int \<Rightarrow> StreamMessageResponse list \<Rightarrow> Message list \<Rightarrow> Message list" where
  "processStream tempId evs msgs = foldl (\<lambda>ms data. onMessage tempId data ms) msgs evs"

section \<open>JavaScript strings (as used by the stream client)\<close>

text \<open>
  A string is a list of characters, one per UTF-16 code unit of the JavaScript string;
  code units above 255 do not occur in the inputs considered here. \<open>isWordChar\<close> is
  the regular expression class \<open>\w\<close> (ASCII letters, digits and the underscore);
  \<open>isWhiteSpace\<close> is what \<open>String.prototype.trim\<close> strips in that range: tab, line
  feed, vertical tab, form feed, carriage return, space and the no-break space.
\<close>

definition isWordChar :: "char \<Rightarrow> bool" where
  "isWordChar c = (let n = (of_char c :: nat) in
      (48 \<le> n \<and> n \<le> 57) \<or> (65 \<le> n \<and> n \<le> 90) \<or> n = 95 \<or> (97 \<le> n \<and> n \<le> 122))"

definition isWhiteSpace :: "char \<Rightarrow> bool" where
  "isWhiteSpace c = (let n = (of_char c :: nat) in (9 \<le> n \<and> n \<le> 13) \<or> n = 32 \<or> n = 160)"

definition trim :: "string \<Rightarrow> string" where
  "trim s = rev (dropWhile isWhiteSpace (rev (dropWhile isWhiteSpace s)))"

definition startsWith :: "string \<Rightarrow> string \<Rightarrow> bool" where
  "startsWith s p = (take (length p) s = p)"

text \<open>\<open>s.split("\n")\<close>: never empty; the last element is the text after the last line feed.\<close>

fun splitNL :: "string \<Rightarrow> string list" where
  "splitNL [] = [[]]"
| "splitNL (c # cs) =
     (if c = CHR 0x0A then [] # splitNL cs
      else (case splitNL cs of [] \<Rightarrow> [[c]] | l # ls \<Rightarrow> (c # l) # ls))"

section \<open>The fallback parser (front-end/src/api/routes/chats.ts, parsePythonObject)\<close>

text \<open>
  The values the parser stores: a string, \<open>null\<close>, a boolean or a number. What
  \<open>Number(token)\<close> yields is left to the parameter \<open>toNumber\<close> of the parser
  (\<open>None\<close> for \<open>NaN\<close>), so the number type \<open>'n\<close> is a parameter too.
\<close>

datatype 'n pyval = PStr string | PNull | PBool bool | PNum 'n

text \<open>
  An object is the list of its own properties in insertion order, together with the one
  bit of its prototype that assignment depends on. In ECMAScript
  \<open>Object.prototype.__proto__\<close> is an accessor property, so \<open>result[key] = value\<close>
  on an ordinary object whose prototype is still \<open>Object.prototype\<close> calls its
  setter when \<open>key\<close> is \<open>__proto__\<close>: the setter ignores strings, booleans and
  numbers, and \<open>null\<close> clears the prototype; no own property is created. Once the
  prototype is \<open>null\<close> the setter is out of reach and \<open>__proto__\<close> is an ordinary
  key. Every other key is written in place, or appended when new.
\<close>

type_synonym 'n pyobj = "(string \<times> 'n pyval) list"

definition setProp :: "string \<Rightarrow> 'n pyval \<Rightarrow> 'n pyobj \<times> bool \<Rightarrow> 'n pyobj \<times> bool" where
  "setProp k v st =
     (case st of (ownProps, protoIsNull) \<Rightarrow>
        if k = ''__proto__'' \<and> \<not> protoIsNull then (ownProps, v = PNull)
        else (AList.update k v ownProps, protoIsNull))"

text \<open>
  One match of \<open>/(\w+)=('([^']*)'|"([^"]*)"|None|True|False|\w+)/g\<close>. The value is
  one of the alternatives, tried in order; \<open>rawval\<close> records which groups matched:
  group 3 (single quotes), group 4 (double quotes), or neither (then group 2 is the
  whole token).
\<close>

datatype rawval = SingleQuoted string | DoubleQuoted string | Bare string

text \<open>\<open>splitAt c s\<close>: the text before the first \<open>c\<close> in \<open>s\<close> and the text after it.\<close>

fun splitAt :: "char \<Rightarrow> string \<Rightarrow> (string \<times> string) option" where
  "splitAt c [] = None"
| "splitAt c (x # xs) =
     (if x = c then Some ([], xs)
      else (case splitAt c xs of None \<Rightarrow> None | Some (a, b) \<Rightarrow> Some (x # a, b)))"

text \<open>
  The value alternatives at the start of \<open>s\<close>, with the rest of the input. A quoted
  alternative whose closing quote is missing fails, and then so do the others, which
  cannot start with a quote. \<open>None\<close>, \<open>True\<close> and \<open>False\<close> come before \<open>\w+\<close>, so
  they match as prefixes of a longer token.
\<close>

definition matchValue :: "string \<Rightarrow> (rawval \<times> string) option" where
  "matchValue s =
     (if startsWith s [CHR 0x27] then
        (case splitAt (CHR 0x27) (drop 1 s) of
           None \<Rightarrow> None | Some (v, rest) \<Rightarrow> Some (SingleQuoted v, rest))
      else if startsWith s [CHR 0x22] then
        (case splitAt (CHR 0x22) (drop 1 s) of
           None \<Rightarrow> None | Some (v, rest) \<Rightarrow> Some (DoubleQuoted v, rest))
      else if startsWith s ''None'' then Some (Bare ''None'', drop 4 s)
      else if startsWith s ''True'' then Some (Bare ''True'', drop 4 s)
      else if startsWith s ''False'' then Some (Bare ''False'', drop 5 s)
      else if takeWhile isWordChar s \<noteq> [] then
        Some (Bare (takeWhile isWordChar s), dropWhile isWordChar s)
      else None)"

text \<open>
  A match that starts at the first character of \<open>s\<close>: the greedy \<open>\w+\<close> takes the
  whole run of word characters (a shorter key would be followed by a word character,
  not by \<open>=\<close>), then \<open>=\<close>, then the value.
\<close>

definition matchAt :: "string \<Rightarrow> (string \<times> rawval \<times> string) option" where
  "matchAt s =
     (if takeWhile isWordChar s = [] then None
      else (case dropWhile isWordChar s of
              [] \<Rightarrow> None
            | c # r \<Rightarrow>
                if c = CHR ''='' then
                  (case matchValue r of None \<Rightarrow> None | Some (v, rest) \<Rightarrow> Some (takeWhile isWordChar s, v, rest))
                else None))"

text \<open>
  The loop \<open>while ((match = regex.exec(pythonStr)) !== null)\<close>: the leftmost match
  from the current position, then on from the end of that match.
\<close>

function scanPairs :: "string \<Rightarrow> (string \<times> rawval) list" where
  "scanPairs [] = []"
| "scanPairs (c # cs) =
     (case matchAt (c # cs) of
        None \<Rightarrow> scanPairs cs
      | Some (k, v, rest) \<Rightarrow> (k, v) # scanPairs rest)"
  by pat_completeness auto

text \<open>Each match consumes at least one character, so the loop ends.\<close>

lemma splitAt_shorter: "splitAt c xs = Some (a, b) \<Longrightarrow> length b < length xs"
  by (induction xs arbitrary: a) (auto split: if_splits option.splits)

lemma matchValue_shorter: "matchValue s = Some (v, rest) \<Longrightarrow> length rest \<le> length s"
  unfolding matchValue_def
  by (auto split: if_splits option.splits prod.splits dest!: splitAt_shorter
        intro: le_trans[OF length_dropWhile_le])

lemma matchAt_shorter:
  assumes "matchAt s = Some (k, v, rest)"
  shows "length rest < length s"
proof -
  from assms obtain r where d: "dropWhile isWordChar s = CHR ''='' # r"
    and mv: "matchValue r = Some (v, rest)"
    by (auto simp: matchAt_def split: if_splits list.splits option.splits prod.splits)
  have "length rest \<le> length r" using matchValue_shorter[OF mv] .
  moreover have "length (dropWhile isWordChar s) \<le> length s" by (rule length_dropWhile_le)
  ultimately show ?thesis using d by simp
qed

termination scanPairs
  by (relation "measure length") (auto dest: matchAt_shorter)

text \<open>The value stored for a match (lines 39-58).\<close>

definition convertValue :: "(string \<Rightarrow> 'n option) \<Rightarrow> rawval \<Rightarrow> 'n pyval" where
  "convertValue toNumber raw =
     (case raw of
        SingleQuoted v \<Rightarrow> PStr v
      | DoubleQuoted v \<Rightarrow> PStr v
      | Bare w \<Rightarrow>
          if w = ''None'' then PNull
          else if w = ''True'' then PBool True
          else if w = ''False'' then PBool False
          else (case toNumber w of None \<Rightarrow> PStr w | Some n \<Rightarrow> PNum n))"

definition defaultEvent :: "'n pyobj" where
  "defaultEvent =
     [(''status'', PStr []), (''response'', PStr []), (''error'', PNull), (''tool_name'', PNull),
      (''tool_args'', PNull), (''tool_result'', PNull), (''info'', PNull)]"

definition parsePythonObject :: "(string \<Rightarrow> 'n option) \<Rightarrow> string \<Rightarrow> 'n pyobj" where
  "parsePythonObject toNumber pythonStr =
     fst (foldl (\<lambda>st (k, raw). setProp k (convertValue toNumber raw) st)
            (defaultEvent, False) (scanPairs pythonStr))"

section \<open>The stream client (front-end/src/api/routes/chats.ts, streamQuestion)\<close>

text \<open>
  What \<open>onMessage\<close> receives: the value \<open>JSON.parse\<close> returned, or the object built
  by the fallback parser. \<open>JSON.parse\<close> is the parameter \<open>jsonParse\<close> (\<open>None\<close> when
  it throws), with values of any type \<open>'j\<close>.
\<close>

datatype ('j, 'n) payload = FromJson 'j | FromPython "'n pyobj"

text \<open>
  The body of \<open>for (const line of lines)\<close> (lines 136-179) on the pair of
  \<open>currentEvent\<close> and the events handed to \<open>onMessage\<close> so far. A data line whose
  payload is empty or \<open>null\<close> is skipped before \<open>currentEvent\<close> is reset; an
  exception of \<open>JSON.parse\<close> is caught and only logged.
\<close>

definition processLine ::
  "(string \<Rightarrow> 'j option) \<Rightarrow> (string \<Rightarrow> 'n option) \<Rightarrow> string \<Rightarrow>
   string \<times> ('j, 'n) payload list \<Rightarrow> string \<times> ('j, 'n) payload list" where
  "processLine jsonParse toNumber line st =
     (case st of (currentEvent, delivered) \<Rightarrow>
        if line = [] \<or> startsWith line '':'' then (currentEvent, delivered)
        else if startsWith line ''event:'' then (trim (drop 6 line), delivered)
        else if startsWith line ''data:'' then
          (let dataStr = trim (drop 5 line) in
           if dataStr = [] \<or> dataStr = ''null'' then (currentEvent, delivered)
           else if currentEvent = ''message'' then
             (if startsWith dataStr ''{'' then
                (case jsonParse dataStr of
                   None \<Rightarrow> (''message'', delivered)
                 | Some data \<Rightarrow> (''message'', delivered @ [FromJson data]))
              else (''message'', delivered @ [FromPython (parsePythonObject toNumber dataStr)]))
           else (''message'', delivered))
        else (currentEvent, delivered))"

text \<open>
  One iteration of the read loop on a decoded chunk: the state is the buffer with
  \<open>currentEvent\<close> and the delivered events.
\<close>

definition processChunk ::
  "(string \<Rightarrow> 'j option) \<Rightarrow> (string \<Rightarrow> 'n option) \<Rightarrow> string \<Rightarrow>
   string \<times> string \<times> ('j, 'n) payload list \<Rightarrow> string \<times> string \<times> ('j, 'n) payload list" where
  "processChunk jsonParse toNumber chunk st =
     (case st of (buffer, rest) \<Rightarrow>
        (let lines = splitNL (buffer @ chunk)
         in (last lines, foldl (\<lambda>s line. processLine jsonParse toNumber line s) rest (butlast lines))))"

text \<open>
  The HTTP response as the client sees it: \<open>response.ok\<close>, and the body (\<open>None\<close>
  when there is none) as the decoded chunks that \<open>reader.read()\<close> yields followed by
  the way the reading ends: \<open>done\<close>, or a rejected \<open>read\<close>, whose exception leaves
  the loop for the \<open>catch\<close> block. The result is the list of events handed to
  \<open>onMessage\<close> and the callback that ends the call. What is left in the buffer when
  the stream ends is never processed.
\<close>

datatype streamEnd = EndOfStream | ReadFailure

datatype finish = OnComplete | OnError

definition streamQuestion ::
  "(string \<Rightarrow> 'j option) \<Rightarrow> (string \<Rightarrow> 'n option) \<Rightarrow> bool \<Rightarrow> (string list \<times> streamEnd) option \<Rightarrow>
   ('j, 'n) payload list \<times> finish" where
  "streamQuestion jsonParse toNumber ok body =
     (if \<not> ok then ([], OnError)
      else (case body of
              None \<Rightarrow> ([], OnError)
            | Some (chunks, ending) \<Rightarrow>
                (snd (snd (foldl (\<lambda>s chunk. processChunk jsonParse toNumber chunk s)
                             ([], ''message'', []) chunks)),
                 (case ending of EndOfStream \<Rightarrow> OnComplete | ReadFailure \<Rightarrow> OnError))))"

text \<open>
  \<open>Number\<close> on a token of decimal digits, for the examples (which contain no other
  bare tokens).
\<close>

definition digitsToNumber :: "string \<Rightarrow> nat option" where
  "digitsToNumber w =
     (if w \<noteq> [] \<and> list_all (\<lambda>c. 48 \<le> (of_char c :: nat) \<and> (of_char c :: nat) \<le> 57) w
      then Some (foldl (\<lambda>n c. 10 * n + ((of_char c :: nat) - 48)) 0 w) else None)"

section \<open>Query strings (front-end/src/api/routes/utils.ts)\<close>

text \<open>
  The values of the \<open>params\<close> record: \<open>string | number | boolean | null | undefined\<close>.
  How a number prints is the parameter \<open>numToString\<close> of \<open>jsString\<close>
  (JavaScript's \<open>String\<close>).
\<close>

datatype 'n qvalue = QStr string | QNum 'n | QBool bool | QNull | QUndefined

definition jsString :: "('n \<Rightarrow> string) \<Rightarrow> 'n qvalue \<Rightarrow> string" where
  "jsString numToString v =
     (case v of
        QStr s \<Rightarrow> s
      | QNum n \<Rightarrow> numToString n
      | QBool b \<Rightarrow> (if b then ''true'' else ''false'')
      | QNull \<Rightarrow> ''null''
      | QUndefined \<Rightarrow> ''undefined'')"

text \<open>\<open>value === undefined || value === null\<close>.\<close>

definition nullish :: "'n qvalue \<Rightarrow> bool" where
  "nullish v = (case v of QUndefined \<Rightarrow> True | QNull \<Rightarrow> True | _ \<Rightarrow> False)"

text \<open>
  \<open>URLSearchParams\<close> is a list of name-value pairs. \<open>set(name, value)\<close> overwrites
  the first pair of that name and removes the others, or appends a new pair.
\<close>

fun spSet :: "string \<Rightarrow> string \<Rightarrow> (string \<times> string) list \<Rightarrow> (string \<times> string) list" where
  "spSet k v [] = [(k, v)]"
| "spSet k v ((k', v') # rest) =
     (if k' = k then (k, v) # filter (\<lambda>(a, b). a \<noteq> k) rest else (k', v') # spSet k v rest)"

text \<open>
  \<open>toString()\<close> is the application/x-www-form-urlencoded serialiser: names and
  values are encoded as UTF-8 (two bytes for the code units from 128 to 255), letters,
  digits and \<open>* - . _\<close> stay, a space becomes \<open>+\<close>, every other byte is
  percent-encoded; the pairs are written \<open>name=value\<close> and joined by \<open>&\<close>.
\<close>

definition hexDigit :: "nat \<Rightarrow> char" where
  "hexDigit n = ''0123456789ABCDEF'' ! n"

definition percentByte :: "nat \<Rightarrow> string" where
  "percentByte b = [CHR ''%'', hexDigit (b div 16), hexDigit (b mod 16)]"

definition formEncodeChar :: "char \<Rightarrow> string" where
  "formEncodeChar c =
     (let n = (of_char c :: nat) in
      if (48 \<le> n \<and> n \<le> 57) \<or> (65 \<le> n \<and> n \<le> 90) \<or> (97 \<le> n \<and> n \<le> 122)
         \<or> n = 42 \<or> n = 45 \<or> n = 46 \<or> n = 95 then [c]
      else if n = 32 then ''+''
      else if n < 128 then percentByte n
      else percentByte (192 + n div 64) @ percentByte (128 + n mod 64))"

definition formEncode :: "string \<Rightarrow> string" where
  "formEncode s = concat (map formEncodeChar s)"

fun serializeParams :: "(string \<times> string) list \<Rightarrow> string" where
  "serializeParams [] = []"
| "serializeParams [(k, v)] = formEncode k @ ''='' @ formEncode v"
| "serializeParams ((k, v) # p # rest) =
     formEncode k @ ''='' @ formEncode v @ ''&'' @ serializeParams (p # rest)"

text \<open>The body of the \<open>forEach\<close> callback (lines 7-10).\<close>

definition addParam ::
  "('n \<Rightarrow> string) \<Rightarrow> (string \<times> string) list \<Rightarrow> string \<times> 'n qvalue \<Rightarrow> (string \<times> string) list" where
  "addParam numToString searchParams entry =
     (case entry of (key, value) \<Rightarrow>
        if nullish value then searchParams
        else spSet key (jsString numToString value) searchParams)"

text \<open>
  \<open>params\<close> is \<open>None\<close> when the argument is \<open>undefined\<close>, and otherwise the
  entries of the record in the order \<open>Object.entries\<close> lists them.
\<close>

definition buildQueryString :: "('n \<Rightarrow> string) \<Rightarrow> (string \<times> 'n qvalue) list option \<Rightarrow> string" where
  "buildQueryString numToString params =
     (case params of
        None \<Rightarrow> []
      | Some entries \<Rightarrow>
          (let searchParams = foldl (addParam numToString) [] entries;
               queryString = serializeParams searchParams
           in if queryString \<noteq> [] then ''?'' @ queryString else []))"

text \<open>A natural number in decimal, as \<open>String\<close> prints it.\<close>

fun showNat :: "nat \<Rightarrow> string" where
  "showNat n = (if n < 10 then [char_of (48 + n)] else showNat (n div 10) @ [char_of (48 + n mod 10)])"

declare showNat.simps [simp del]

section \<open>JSON values as JavaScript sees them\<close>

text \<open>
  The path-parameter schema of a tool arrives as parsed JSON and is typed \<open>any\<close>.
  Numbers are of any type \<open>'n\<close> with a zero (only their truthiness is read). An
  object is the list of its own enumerable properties, in the order in which they were
  created; the order in which JavaScript enumerates them (integer-like keys first) is
  not modelled, and nothing below depends on it.
\<close>

datatype 'n json = JNull | JBool bool | JNum 'n | JStr string | JArr "'n json list"
  | JObj "(string \<times> 'n json) list"

definition truthy :: "('n::zero) json \<Rightarrow> bool" where
  "truthy v =
     (case v of JNull \<Rightarrow> False | JBool b \<Rightarrow> b | JNum n \<Rightarrow> n \<noteq> 0 | JStr s \<Rightarrow> s \<noteq> []
              | JArr xs \<Rightarrow> True | JObj ps \<Rightarrow> True)"

text \<open>\<open>typeof v === "object"\<close>: objects, arrays and \<open>null\<close>.\<close>

definition typeofObject :: "'n json \<Rightarrow> bool" where
  "typeofObject v = (case v of JNull \<Rightarrow> True | JArr xs \<Rightarrow> True | JObj ps \<Rightarrow> True | _ \<Rightarrow> False)"

text \<open>
  The own enumerable properties of a value, as the spread \<open>{...v}\<close> copies them: the
  properties of an object, the elements of an array and the characters of a string
  under their decimal indices.
\<close>

definition ownEntries :: "'n json \<Rightarrow> (string \<times> 'n json) list" where
  "ownEntries v =
     (case v of
        JObj ps \<Rightarrow> ps
      | JArr xs \<Rightarrow> zip (map showNat [0..<length xs]) xs
      | JStr s \<Rightarrow> zip (map showNat [0..<length s]) (map (\<lambda>c. JStr [c]) s)
      | _ \<Rightarrow> [])"

definition getOwn :: "'n json \<Rightarrow> string \<Rightarrow> 'n json option" where
  "getOwn v p = map_of (ownEntries v) p"

text \<open>
  \<open>base[p]\<close> where the only use of the result is the test
  \<open>existing && typeof existing === "object"\<close>: apart from the own properties, what a
  value inherits are functions and the number \<open>length\<close>, never objects, and they are
  read as absent here; the exception is \<open>__proto__\<close>, which yields the prototype, an
  object without enumerable properties (\<open>JObj []\<close>).
\<close>

definition getProp :: "'n json \<Rightarrow> string \<Rightarrow> 'n json option" where
  "getProp base p =
     (case getOwn base p of
        Some v \<Rightarrow> Some v
      | None \<Rightarrow> if p = ''__proto__'' then Some (JObj []) else None)"

section \<open>Path parameters of a webhook URL (ToolCard component)\<close>

text \<open>
  A match of \<open>/\{([^}]+)\}/g\<close> at the first character of \<open>s\<close>: an opening brace, the
  longest non-empty run of characters other than the closing brace (group 1), and a
  closing brace. The result is group 1 and the input after the match.
\<close>

definition matchBrace :: "string \<Rightarrow> (string \<times> string) option" where
  "matchBrace s =
     (case s of
        [] \<Rightarrow> None
      | c # r \<Rightarrow>
          if c = CHR ''{'' \<and> takeWhile (\<lambda>x. x \<noteq> CHR ''}'') r \<noteq> []
             \<and> dropWhile (\<lambda>x. x \<noteq> CHR ''}'') r \<noteq> []
          then Some (takeWhile (\<lambda>x. x \<noteq> CHR ''}'') r, tl (dropWhile (\<lambda>x. x \<noteq> CHR ''}'') r))
          else None)"

text \<open>The \<open>while\<close> loop over \<open>regex.exec(url)\<close>: group 1 of every match, left to right.\<close>

function braceMatches :: "string \<Rightarrow> string list" where
  "braceMatches [] = []"
| "braceMatches (c # cs) =
     (case matchBrace (c # cs) of
        None \<Rightarrow> braceMatches cs
      | Some (name, rest) \<Rightarrow> name # braceMatches rest)"
  by pat_completeness auto

lemma matchBrace_shorter: "matchBrace s = Some (name, rest) \<Longrightarrow> length rest < length s"
proof -
  assume m: "matchBrace s = Some (name, rest)"
  then obtain c r where s: "s = c # r" and r: "rest = tl (dropWhile (\<lambda>x. x \<noteq> CHR ''}'') r)"
    by (auto simp: matchBrace_def split: list.splits if_splits)
  have "length (tl (dropWhile (\<lambda>x. x \<noteq> CHR ''}'') r)) \<le> length (dropWhile (\<lambda>x. x \<noteq> CHR ''}'') r)"
    by simp
  also have "\<dots> \<le> length r" by (rule length_dropWhile_le)
  finally show ?thesis by (simp add: s r)
qed

termination braceMatches
  by (relation "measure length") (auto dest: matchBrace_shorter)

text \<open>\<open>names.add(name)\<close> on a \<open>Set\<close>, which keeps insertion order.\<close>

definition addName :: "string list \<Rightarrow> string \<Rightarrow> string list" where
  "addName names name = (if name \<in> set names then names else names @ [name])"

definition extractPathParams :: "string \<Rightarrow> string list" where
  "extractPathParams url =
     foldl (\<lambda>names m. let name = trim m in if name \<noteq> [] then addName names name else names)
       [] (braceMatches url)"

definition defaultSchemaDescription :: string where
  "defaultSchemaDescription = ''Schema que define a estrutura dos path parameters de um webhook.''"

text \<open>The template text of lines 185 and 187 (its second letter is a with circumflex).\<close>

definition defaultParamDescription :: "string \<Rightarrow> string" where
  "defaultParamDescription p = ''Par'' @ [CHR 0xE2] @ ''metro de path '' @ [CHR 0x27] @ p @ [CHR 0x27]"

text \<open>
  \<open>currentSchema\<close> is \<open>None\<close> when the tool has no schema yet (\<open>undefined\<close>).
\<close>

definition currentIsObject :: "('n::zero) json option \<Rightarrow> bool" where
  "currentIsObject currentSchema =
     (case currentSchema of
        None \<Rightarrow> False
      | Some s \<Rightarrow> truthy s \<and> typeofObject s \<and>
          (case getOwn s ''type'' of Some (JStr t) \<Rightarrow> t = ''object'' | _ \<Rightarrow> False))"

text \<open>\<open>currentIsObject ? currentSchema.properties || {} : {}\<close>.\<close>

definition currentProps :: "('n::zero) json option \<Rightarrow> 'n json" where
  "currentProps currentSchema =
     (case currentSchema of
        None \<Rightarrow> JObj []
      | Some s \<Rightarrow>
          if currentIsObject currentSchema then
            (case getOwn s ''properties'' of
               None \<Rightarrow> JObj []
             | Some v \<Rightarrow> if truthy v then v else JObj [])
          else JObj [])"

text \<open>\<open>(currentIsObject && currentSchema.description) || "Schema que ..."\<close>.\<close>

definition schemaDescription :: "('n::zero) json option \<Rightarrow> 'n json" where
  "schemaDescription currentSchema =
     (case currentSchema of
        None \<Rightarrow> JStr defaultSchemaDescription
      | Some s \<Rightarrow>
          if currentIsObject currentSchema then
            (case getOwn s ''description'' of
               None \<Rightarrow> JStr defaultSchemaDescription
             | Some d \<Rightarrow> if truthy d then d else JStr defaultSchemaDescription)
          else JStr defaultSchemaDescription)"

text \<open>The object literal of line 185.\<close>

definition defaultParam :: "string \<Rightarrow> (string \<times> 'n json) list" where
  "defaultParam p = [(''type'', JStr ''string''), (''description'', JStr (defaultParamDescription p))]"

text \<open>Lines 186 and 187: \<open>if (!next.type) ...\<close>, \<open>if (!next.description) ...\<close>.\<close>

definition fillDefaults :: "string \<Rightarrow> (string \<times> ('n::zero) json) list \<Rightarrow> (string \<times> 'n json) list" where
  "fillDefaults p next =
     (let next1 = (if (case map_of next ''type'' of None \<Rightarrow> False | Some t \<Rightarrow> truthy t) then next
                   else AList.update ''type'' (JStr ''string'') next)
      in if (case map_of next1 ''description'' of None \<Rightarrow> False | Some d \<Rightarrow> truthy d) then next1
         else AList.update ''description'' (JStr (defaultParamDescription p)) next1)"

text \<open>The property built for the parameter \<open>p\<close> (lines 181-187).\<close>

definition paramProperty :: "('n::zero) json \<Rightarrow> string \<Rightarrow> (string \<times> 'n json) list" where
  "paramProperty props p =
     fillDefaults p
       (case getProp props p of
          None \<Rightarrow> defaultParam p
        | Some existing \<Rightarrow>
            if truthy existing \<and> typeofObject existing then ownEntries existing else defaultParam p)"

text \<open>
  \<open>properties[p] = next\<close> on the object literal \<open>{}\<close>. In ECMAScript
  \<open>Object.prototype.__proto__\<close> is an accessor property, and an assignment
  \<open>o[k] = v\<close> that finds an accessor on the prototype chain of \<open>o\<close> calls its
  setter instead of creating a property. So for \<open>p = "__proto__"\<close> the assignment
  makes \<open>next\<close> the prototype of \<open>properties\<close> and creates no own property; any
  other name is written as an own property.
\<close>

definition assignProperty ::
  "('n::zero) json \<Rightarrow> (string \<times> 'n json) list \<Rightarrow> string \<Rightarrow> (string \<times> 'n json) list" where
  "assignProperty props properties p =
     (if p = ''__proto__'' then properties
      else AList.update p (JObj (paramProperty props p)) properties)"

definition buildPathParamsSchema :: "string list \<Rightarrow> ('n::zero) json option \<Rightarrow> 'n json" where
  "buildPathParamsSchema paramNames currentSchema =
     JObj [(''type'', JStr ''object''),
           (''description'', schemaDescription currentSchema),
           (''properties'', JObj (foldl (assignProperty (currentProps currentSchema)) [] paramNames)),
           (''required'', JArr (map JStr paramNames))]"

section \<open>Schema nodes of the JSON schema editor (JsonSchemaEditor component)\<close>

text \<open>
  \<open>JsonSchemaNode\<close>: a primitive node, an object node with its properties (the own
  enumerable properties of the \<open>properties\<close> record, in the order \<open>Object.entries\<close>
  lists them) and its optional \<open>required\<close> list, or an array node with its items.
  The optional \<open>description\<close> comes first in each constructor.
\<close>

datatype PrimitiveType = TString | TNumber | TInteger

datatype JsonSchemaNode =
    PrimitiveNode PrimitiveType "string option"
  | ObjectNode "string option" "(string \<times> JsonSchemaNode) list" "string list option"
  | ArrayNode "string option" JsonSchemaNode

text \<open>\<open>depthAllowed != null && depth > depthAllowed\<close>.\<close>

definition exceedsDepth :: "int option \<Rightarrow> int \<Rightarrow> bool" where
  "exceedsDepth depthAllowed depth = (case depthAllowed of None \<Rightarrow> False | Some m \<Rightarrow> depth > m)"

text \<open>
  The test \<open>nextProps[r] != null\<close> reads \<open>r\<close> through the prototype chain of
  \<open>nextProps\<close>. \<open>objectPrototypeNames\<close> are the properties every ordinary object
  inherits from \<open>Object.prototype\<close>, none of them \<open>null\<close>. \<open>nodeHas n r\<close> is
  \<open>n[r] != null\<close> for a node object \<open>n\<close>: its own fields, then what it inherits.
\<close>

definition objectPrototypeNames :: "string list" where
  "objectPrototypeNames =
     [''constructor'', ''__defineGetter__'', ''__defineSetter__'', ''hasOwnProperty'',
      ''__lookupGetter__'', ''__lookupSetter__'', ''isPrototypeOf'', ''propertyIsEnumerable'',
      ''toString'', ''valueOf'', ''__proto__'', ''toLocaleString'']"

definition nodeHas :: "JsonSchemaNode \<Rightarrow> string \<Rightarrow> bool" where
  "nodeHas n r =
     (r \<in> set objectPrototypeNames \<or>
      (case n of
         PrimitiveNode t d \<Rightarrow> r = ''type'' \<or> (r = ''description'' \<and> d \<noteq> None)
       | ObjectNode d props req \<Rightarrow>
           r = ''type'' \<or> (r = ''description'' \<and> d \<noteq> None) \<or> r = ''properties''
           \<or> (r = ''required'' \<and> req \<noteq> None)
       | ArrayNode d items \<Rightarrow> r = ''type'' \<or> (r = ''description'' \<and> d \<noteq> None) \<or> r = ''items''))"

text \<open>
  \<open>nextProps[k] = v\<close> on the object literal \<open>{}\<close>. The key \<open>__proto__\<close> names
  the accessor property of \<open>Object.prototype\<close>, so the assignment calls its setter:
  the node \<open>v\<close> becomes the prototype of \<open>nextProps\<close> and no own property is
  created (the prototype is kept apart, below). Any other key is written as an own
  property. A record can still have an own property of that name when it was not
  built by assignment: \<open>JSON.parse\<close> and object literals define properties
  without calling setters, and \<open>Object.entries\<close> lists it like any other.
\<close>

definition assignNext ::
  "(string \<times> JsonSchemaNode) list \<Rightarrow> string \<times> JsonSchemaNode \<Rightarrow> (string \<times> JsonSchemaNode) list" where
  "assignNext nextProps entry =
     (case entry of (k, v) \<Rightarrow> if k = ''__proto__'' then nextProps else AList.update k v nextProps)"

text \<open>
  \<open>nextProps[r] != null\<close>, where \<open>proto\<close> is the node that an assignment to
  \<open>__proto__\<close> made the prototype of \<open>nextProps\<close>, if there was one.
\<close>

definition nextPropsHas ::
  "(string \<times> JsonSchemaNode) list \<Rightarrow> JsonSchemaNode option \<Rightarrow> string \<Rightarrow> bool" where
  "nextPropsHas nextProps proto r =
     (r \<in> set (map fst nextProps) \<or>
      (case proto of None \<Rightarrow> r \<in> set objectPrototypeNames | Some p \<Rightarrow> nodeHas p r))"

fun enforceConstraintsOnNode ::
  "JsonSchemaNode \<Rightarrow> int \<Rightarrow> int \<Rightarrow> bool \<Rightarrow> int option \<Rightarrow> bool \<Rightarrow> JsonSchemaNode" where
  "enforceConstraintsOnNode (PrimitiveNode t d) depth rootDepth arrayAllowed depthAllowed allFieldsRequired =
     PrimitiveNode t d"
| "enforceConstraintsOnNode (ArrayNode d items) depth rootDepth arrayAllowed depthAllowed allFieldsRequired =
     (if \<not> arrayAllowed \<and> depth \<noteq> rootDepth then PrimitiveNode TString d
      else if exceedsDepth depthAllowed depth then PrimitiveNode TString d
      else ArrayNode d
             (enforceConstraintsOnNode items (depth + 1) rootDepth arrayAllowed depthAllowed
                allFieldsRequired))"
| "enforceConstraintsOnNode (ObjectNode d props req) depth rootDepth arrayAllowed depthAllowed allFieldsRequired =
     (if exceedsDepth depthAllowed depth then PrimitiveNode TString d
      else
        (let entries =
               map (\<lambda>(k, v). (k, enforceConstraintsOnNode v (depth + 1) rootDepth arrayAllowed
                                    depthAllowed allFieldsRequired)) props;
             nextProps = foldl assignNext [] entries;
             proto = map_of (rev entries) ''__proto__'';
             nextReq =
               (if allFieldsRequired then map fst nextProps
                else filter (nextPropsHas nextProps proto) (case req of None \<Rightarrow> [] | Some rs \<Rightarrow> rs))
         in ObjectNode d nextProps (Some nextReq)))"

text \<open>
  The nodes the editor builds and passes to \<open>enforceConstraintsOnNode\<close>: every
  \<open>properties\<close> record is created by assignment to a fresh object (\<open>cloneNode\<close>,
  \<open>sanitizeIncomingSchema\<close>, the object editor, \<open>enforceConstraintsOnNode\<close>
  itself), so no record has an own property named \<open>__proto__\<close>; and the keys of a
  record are distinct.
\<close>

fun builtByAssignment :: "JsonSchemaNode \<Rightarrow> bool" where
  "builtByAssignment (PrimitiveNode t d) = True"
| "builtByAssignment (ArrayNode d items) = builtByAssignment items"
| "builtByAssignment (ObjectNode d props req) =
     (distinct (map fst props) \<and> ''__proto__'' \<notin> set (map fst props)
      \<and> (\<forall>(k, v)\<in>set props. builtByAssignment v))"

section \<open>The Recursion Guard (specification, section 4.4)\<close>

text \<open>
  The execution engine the specification describes (Turn Orchestrator, Tool Dispatcher,
  Recursion Guard, Streaming Emitter) is the repository's backend, while the code
  embedded above is its browser client. The guard is therefore modelled from the
  specification's text.
\<close>

type_synonym agentId = string

datatype rejection = Cycle | DepthExceeded

datatype decision = Allow "agentId list" | Reject rejection

text \<open>
  Modelled from the spec: the guard's \<open>enter\<close>, which is backend code. "Reject if
  agentId already appears in the current stack (cycle); reject if stack length would
  exceed a configured maximum depth; otherwise push and allow." The stack is the
  ordered list of agent ids in flight, the last entry on top.
\<close>

definition enter :: "nat \<Rightarrow> agentId \<Rightarrow> agentId list \<Rightarrow> decision" where
  "enter maxDepth agent stack =
     (if agent \<in> set stack then Reject Cycle
      else if maxDepth < length stack + 1 then Reject DepthExceeded
      else Allow (stack @ [agent]))"

text \<open>
  Modelled from the spec: the guard's \<open>leave\<close>, which is backend code. "leave pops on
  completion or failure of the sub-turn, always."
\<close>

definition leave :: "agentId \<Rightarrow> agentId list \<Rightarrow> agentId list" where
  "leave agent stack = butlast stack"

text \<open>
  Modelled from the spec: how a sub-turn ends (completion with its final answer, an
  error, or cancellation), and a sub-turn as the agent executor sees it: the target
  agent, the agent-executor calls that sub-turn starts in turn (each a sub-turn of its
  own), and how it ends. Calls that a cancelled or failed sub-turn never started are
  not in the list.
\<close>

datatype ending = Completed string | Failed string | Cancelled

datatype subturn = SubTurn agentId "subturn list" ending

datatype callResult = Rejected rejection | Ended ending

text \<open>
  Modelled from the spec: the agent executor of section 4.3, which is backend code.
  "Before invoking, it calls the Recursion Guard ...; on acceptance it recursively runs
  the Turn Orchestrator for the target agent ...; on rejection by the guard, no
  sub-turn is started; an error result is returned instead", with the guard's "scoped
  release on every exit path". The result is the stack after the call and what the
  call returned.
\<close>

fun agentCall :: "nat \<Rightarrow> subturn \<Rightarrow> agentId list \<Rightarrow> agentId list \<times> callResult" where
  "agentCall maxDepth (SubTurn agent calls ending) stack =
     (case enter maxDepth agent stack of
        Reject why \<Rightarrow> (stack, Rejected why)
      | Allow entered \<Rightarrow>
          (leave agent (foldl (\<lambda>st call. fst (agentCall maxDepth call st)) entered calls),
           Ended ending))"

section \<open>Properties of the chat page's stream handler\<close>

subsection \<open>Auxiliary facts\<close>

lemma updateMsg_id: "msg_id (updateMsg tempId data m) = msg_id m"
  by (simp add: updateMsg_def applyEvent_def Let_def)

lemma processStream_map:
  "processStream tempId evs msgs = map (\<lambda>m. foldl (\<lambda>m data. updateMsg tempId data m) m evs) msgs"
  unfolding processStream_def onMessage_def
  by (induction evs arbitrary: msgs) (simp_all add: comp_def)

lemma fold_response:
  "msg_id m = tempId \<Longrightarrow> Message.response m = Some r \<Longrightarrow>
   Message.response (foldl (\<lambda>m data. updateMsg tempId data m) m evs) =
     Some (r @ concat (map StreamMessageResponse.response (filter (\<lambda>e. status e = ''response'') evs)))"
proof (induction evs arbitrary: m r)
  case Nil
  then show ?case by simp
next
  case (Cons e evs)
  have i: "msg_id (updateMsg tempId e m) = tempId"
    using Cons.prems(1) by (simp add: updateMsg_id)
  have r: "Message.response (updateMsg tempId e m) =
             Some (r @ (if status e = ''response'' then StreamMessageResponse.response e else []))"
    using Cons.prems by (simp add: updateMsg_def applyEvent_def Let_def str_or_def)
  show ?case using Cons.IH[OF i r] by simp
qed

lemma updateMsg_other_status:
  "status data \<noteq> ''response'' \<Longrightarrow> status data \<noteq> ''tool_call'' \<Longrightarrow> status data \<noteq> ''tool_result'' \<Longrightarrow>
   updateMsg tempId data m = (if msg_id m \<noteq> tempId then m else m\<lparr>steps := Some (stepsOrEmpty m)\<rparr>)"
  by (simp add: updateMsg_def applyEvent_def Let_def)

lemma steps_defined_update: "steps m \<noteq> None \<Longrightarrow> m\<lparr>steps := Some (stepsOrEmpty m)\<rparr> = m"
  by (cases m) (auto simp: stepsOrEmpty_def)

lemma setLastRunning_hit:
  "running x \<Longrightarrow> \<forall>d\<in>set D1. \<not> running d \<Longrightarrow>
   setLastRunning (Suc (length A + length D1)) data (A @ x # D1 @ D2) = A @ finishStep data x # D1 @ D2"
proof (induction D1 arbitrary: D2 rule: rev_induct)
  case Nil
  then show ?case by simp
next
  case (snoc d D1)
  have nth: "(A @ x # D1 @ d # D2) ! (Suc (length A + length D1)) = d"
    by (simp add: nth_append)
  have "setLastRunning (Suc (length A + length (D1 @ [d]))) data (A @ x # (D1 @ [d]) @ D2)
        = setLastRunning (Suc (length A + length D1)) data (A @ x # D1 @ (d # D2))"
    using snoc.prems nth by simp
  also have "\<dots> = A @ finishStep data x # D1 @ (d # D2)"
    using snoc.IH[of "d # D2"] snoc.prems by simp
  finally show ?case by simp
qed

lemma running_toolStep: "running (toolStep c)"
  by (simp add: running_def toolStep_def)

lemma not_running_finishStep: "\<not> running (finishStep r s)"
  by (simp add: running_def finishStep_def)

lemma running_is_tool: "running s \<Longrightarrow> step_type s = Tool"
  by (simp add: running_def)

lemma finishStep_type: "step_type (finishStep data s) = step_type s"
  by (simp add: finishStep_def)

lemma toolStep_type: "step_type (toolStep c) = Tool"
  by (simp add: toolStep_def)

lemma setLastRunning_miss:
  "\<forall>s\<in>set ss. \<not> running s \<Longrightarrow> n \<le> length ss \<Longrightarrow> setLastRunning n data ss = ss"
proof (induction n)
  case 0
  show ?case by simp
next
  case (Suc n)
  from Suc.prems(2) have "n < length ss" by simp
  then have "ss ! n \<in> set ss" by (rule nth_mem)
  then have "\<not> running (ss ! n)" using Suc.prems(1) by blast
  moreover have "setLastRunning n data ss = ss" using Suc by simp
  ultimately show ?case by simp
qed

lemma pushResponse_tool_steps:
  "filter (\<lambda>s. step_type s = Tool) (pushResponse r ss) = filter (\<lambda>s. step_type s = Tool) ss"
  by (cases ss rule: rev_cases) (auto simp: pushResponse_def textStep_def)

lemma setLastRunning_tool_steps:
  "filter (\<lambda>s. step_type s = Tool) (setLastRunning (length ss) data ss)
     = setLastRunning (length (filter (\<lambda>s. step_type s = Tool) ss)) data
         (filter (\<lambda>s. step_type s = Tool) ss)"
proof (cases "\<exists>s\<in>set ss. running s")
  case True
  then obtain A x D where ss: "ss = A @ x # D" and x: "running x"
    and D: "\<forall>d\<in>set D. \<not> running d"
    using split_list_last_prop[of ss running] by blast
  have tx: "step_type x = Tool" using x by (rule running_is_tool)
  have D': "\<forall>d\<in>set (filter (\<lambda>s. step_type s = Tool) D). \<not> running d" using D by simp
  have 1: "setLastRunning (length ss) data ss = A @ finishStep data x # D"
    using setLastRunning_hit[OF x D, of A data "[]"] by (simp add: ss)
  have 2: "setLastRunning (length (filter (\<lambda>s. step_type s = Tool) ss)) data
             (filter (\<lambda>s. step_type s = Tool) ss)
           = filter (\<lambda>s. step_type s = Tool) A @ finishStep data x # filter (\<lambda>s. step_type s = Tool) D"
    using setLastRunning_hit[OF x D', of "filter (\<lambda>s. step_type s = Tool) A" data "[]"]
    by (simp add: ss tx)
  show ?thesis unfolding 1 2 by (simp add: tx finishStep_type)
next
  case False
  then have n: "\<forall>s\<in>set ss. \<not> running s" by blast
  then have n': "\<forall>s\<in>set (filter (\<lambda>s. step_type s = Tool) ss). \<not> running s" by simp
  show ?thesis by (simp add: setLastRunning_miss[OF n] setLastRunning_miss[OF n'])
qed

lemma stepsOrEmpty_applyEvent:
  "stepsOrEmpty (applyEvent data m) =
     (if status data = ''response'' then
        (if StreamMessageResponse.response data \<noteq> []
         then pushResponse (StreamMessageResponse.response data) (stepsOrEmpty m)
         else stepsOrEmpty m)
      else if status data = ''tool_call'' then stepsOrEmpty m @ [toolStep data]
      else if status data = ''tool_result'' then
        setLastRunning (length (stepsOrEmpty m)) data (stepsOrEmpty m)
      else stepsOrEmpty m)"
  by (simp add: applyEvent_def Let_def stepsOrEmpty_def)

lemma updateMsg_tool_steps:
  assumes "msg_id m = tempId"
  shows "filter (\<lambda>s. step_type s = Tool) (stepsOrEmpty (updateMsg tempId data m)) =
     (if status data = ''tool_call''
      then filter (\<lambda>s. step_type s = Tool) (stepsOrEmpty m) @ [toolStep data]
      else if status data = ''tool_result''
      then setLastRunning (length (filter (\<lambda>s. step_type s = Tool) (stepsOrEmpty m))) data
             (filter (\<lambda>s. step_type s = Tool) (stepsOrEmpty m))
      else filter (\<lambda>s. step_type s = Tool) (stepsOrEmpty m))"
proof -
  have u: "updateMsg tempId data m = applyEvent data m"
    using assms by (simp add: updateMsg_def)
  show ?thesis
    unfolding u stepsOrEmpty_applyEvent
    by (simp add: pushResponse_tool_steps setLastRunning_tool_steps toolStep_type)
qed

lemma calls_fold:
  "msg_id m = tempId \<Longrightarrow> \<forall>e\<in>set evs. status e \<noteq> ''tool_result'' \<Longrightarrow>
   filter (\<lambda>s. step_type s = Tool) (stepsOrEmpty (foldl (\<lambda>m data. updateMsg tempId data m) m evs))
     = filter (\<lambda>s. step_type s = Tool) (stepsOrEmpty m)
       @ map toolStep (filter (\<lambda>e. status e = ''tool_call'') evs) \<and>
   msg_id (foldl (\<lambda>m data. updateMsg tempId data m) m evs) = tempId"
proof (induction evs arbitrary: m)
  case Nil
  then show ?case by simp
next
  case (Cons e evs)
  have i: "msg_id (updateMsg tempId e m) = tempId"
    using Cons.prems(1) by (simp add: updateMsg_id)
  have e: "status e \<noteq> ''tool_result''" and r: "\<forall>e\<in>set evs. status e \<noteq> ''tool_result''"
    using Cons.prems(2) by simp_all
  have s: "filter (\<lambda>s. step_type s = Tool) (stepsOrEmpty (updateMsg tempId e m)) =
           filter (\<lambda>s. step_type s = Tool) (stepsOrEmpty m)
           @ (if status e = ''tool_call'' then [toolStep e] else [])"
    using e by (simp add: updateMsg_tool_steps[OF Cons.prems(1)])
  show ?case using Cons.IH[OF i r] s by simp
qed

lemma results_fold:
  "msg_id m = tempId \<Longrightarrow> \<forall>e\<in>set evs. status e \<noteq> ''tool_call'' \<Longrightarrow>
   length cs = length (filter (\<lambda>e. status e = ''tool_result'') evs) \<Longrightarrow>
   \<forall>d\<in>set D. \<not> running d \<Longrightarrow>
   filter (\<lambda>s. step_type s = Tool) (stepsOrEmpty m) = S @ map toolStep cs @ D \<Longrightarrow>
   filter (\<lambda>s. step_type s = Tool) (stepsOrEmpty (foldl (\<lambda>m data. updateMsg tempId data m) m evs))
     = S @ map2 (\<lambda>c r. finishStep r (toolStep c)) cs
             (rev (filter (\<lambda>e. status e = ''tool_result'') evs)) @ D"
proof (induction evs arbitrary: m cs D)
  case Nil
  then show ?case by simp
next
  case (Cons e evs)
  let ?m1 = "updateMsg tempId e m"
  have i1: "msg_id ?m1 = tempId" using Cons.prems(1) by (simp add: updateMsg_id)
  have e: "status e \<noteq> ''tool_call''" and r1: "\<forall>e\<in>set evs. status e \<noteq> ''tool_call''"
    using Cons.prems(2) by simp_all
  show ?case
  proof (cases "status e = ''tool_result''")
    case True
    from Cons.prems(3) True have "cs \<noteq> []" by auto
    then obtain cs' c where cs: "cs = cs' @ [c]"
      by (metis append_butlast_last_id)
    have len: "length cs' = length (filter (\<lambda>e. status e = ''tool_result'') evs)"
      using Cons.prems(3) cs True by simp
    have ss: "filter (\<lambda>s. step_type s = Tool) (stepsOrEmpty m)
              = (S @ map toolStep cs') @ toolStep c # D @ []"
      using Cons.prems(5) cs by simp
    have l: "length (filter (\<lambda>s. step_type s = Tool) (stepsOrEmpty m))
             = Suc (length (S @ map toolStep cs') + length D)"
      by (simp add: ss)
    have hit: "setLastRunning (length (filter (\<lambda>s. step_type s = Tool) (stepsOrEmpty m))) e
                 (filter (\<lambda>s. step_type s = Tool) (stepsOrEmpty m))
               = (S @ map toolStep cs') @ finishStep e (toolStep c) # D @ []"
      unfolding l unfolding ss
      by (rule setLastRunning_hit[OF running_toolStep Cons.prems(4)])
    have s1: "filter (\<lambda>s. step_type s = Tool) (stepsOrEmpty ?m1)
              = S @ map toolStep cs' @ (finishStep e (toolStep c) # D)"
      using True hit by (simp add: updateMsg_tool_steps[OF Cons.prems(1)])
    have d1: "\<forall>d\<in>set (finishStep e (toolStep c) # D). \<not> running d"
      using Cons.prems(4) by (simp add: not_running_finishStep)
    have "filter (\<lambda>s. step_type s = Tool)
            (stepsOrEmpty (foldl (\<lambda>m data. updateMsg tempId data m) ?m1 evs))
          = S @ map2 (\<lambda>c r. finishStep r (toolStep c)) cs'
                  (rev (filter (\<lambda>e. status e = ''tool_result'') evs))
              @ (finishStep e (toolStep c) # D)"
      by (rule Cons.IH[OF i1 r1 len d1 s1])
    then show ?thesis using len True by (simp add: cs)
  next
    case False
    have len: "length cs = length (filter (\<lambda>e. status e = ''tool_result'') evs)"
      using Cons.prems(3) False by simp
    have s1: "filter (\<lambda>s. step_type s = Tool) (stepsOrEmpty ?m1) = S @ map toolStep cs @ D"
      using False e Cons.prems(5) by (simp add: updateMsg_tool_steps[OF Cons.prems(1)])
    have "filter (\<lambda>s. step_type s = Tool)
            (stepsOrEmpty (foldl (\<lambda>m data. updateMsg tempId data m) ?m1 evs))
          = S @ map2 (\<lambda>c r. finishStep r (toolStep c)) cs
                  (rev (filter (\<lambda>e. status e = ''tool_result'') evs)) @ D"
      by (rule Cons.IH[OF i1 r1 len Cons.prems(4) s1])
    then show ?thesis using False by simp
  qed
qed

subsection \<open>Accumulated response text\<close>

text \<open>
  Claim C6. After the handler has processed the events of one question, the response text
  of the message created for that question is the concatenation, in arrival order, of
  the \<open>response\<close> fields of exactly the events whose status is \<open>response\<close>; events
  of any other status contribute nothing. The message is the optimistic message the
  page appends (with \<open>response: ""\<close>) before it opens the stream.
\<close>

theorem response_text_is_concat_of_response_events:
  "Message.response (last (processStream tempId evs (prev @ [optimisticMessage tempId now question chatId]))) =
     Some (concat (map StreamMessageResponse.response (filter (\<lambda>e. status e = ''response'') evs)))"
proof -
  have a: "msg_id (optimisticMessage tempId now question chatId) = tempId"
    and b: "Message.response (optimisticMessage tempId now question chatId) = Some []"
    by (simp_all add: optimisticMessage_def)
  from fold_response[OF a b] show ?thesis
    by (simp add: processStream_map)
qed

subsection \<open>Keepalive events\<close>

text \<open>
  Claim C7. An event whose status is \<open>keepalive\<close> leaves the chat messages unchanged:
  the list keeps its length, and every message keeps its step list (no step added or
  modified), its response text, its three token counters and all its other fields. The
  only thing the handler can touch is a \<open>steps\<close> field that was \<open>undefined\<close> on the
  message of the running question, which the copy \<open>[...(msg.steps || [])]\<close> turns into
  the empty list; where that field is defined (as on the optimistic message), the state
  after the event equals the state before.
\<close>

theorem keepalive_leaves_messages_unchanged:
  assumes "status data = ''keepalive''"
  shows "length (onMessage tempId data prev) = length prev \<and>
         (\<forall>i<length prev.
            stepsOrEmpty (onMessage tempId data prev ! i) = stepsOrEmpty (prev ! i) \<and>
            Message.response (onMessage tempId data prev ! i) = Message.response (prev ! i) \<and>
            input_tokens (onMessage tempId data prev ! i) = input_tokens (prev ! i) \<and>
            reasoning_tokens (onMessage tempId data prev ! i) = reasoning_tokens (prev ! i) \<and>
            output_tokens (onMessage tempId data prev ! i) = output_tokens (prev ! i) \<and>
            onMessage tempId data prev ! i = (prev ! i)\<lparr>steps := steps (onMessage tempId data prev ! i)\<rparr>) \<and>
         ((\<forall>m\<in>set prev. msg_id m = tempId \<longrightarrow> steps m \<noteq> None) \<longrightarrow> onMessage tempId data prev = prev)"
proof -
  have u: "updateMsg tempId data m = (if msg_id m \<noteq> tempId then m else m\<lparr>steps := Some (stepsOrEmpty m)\<rparr>)" for m
    using assms by (simp add: updateMsg_other_status)
  have 1: "length (onMessage tempId data prev) = length prev"
    by (simp add: onMessage_def)
  have 2: "stepsOrEmpty (updateMsg tempId data m) = stepsOrEmpty m \<and>
           Message.response (updateMsg tempId data m) = Message.response m \<and>
           input_tokens (updateMsg tempId data m) = input_tokens m \<and>
           reasoning_tokens (updateMsg tempId data m) = reasoning_tokens m \<and>
           output_tokens (updateMsg tempId data m) = output_tokens m \<and>
           updateMsg tempId data m = m\<lparr>steps := steps (updateMsg tempId data m)\<rparr>" for m
    by (simp add: u stepsOrEmpty_def)
  have 3: "(\<forall>m\<in>set prev. msg_id m = tempId \<longrightarrow> steps m \<noteq> None) \<longrightarrow> onMessage tempId data prev = prev"
  proof
    assume h: "\<forall>m\<in>set prev. msg_id m = tempId \<longrightarrow> steps m \<noteq> None"
    have "updateMsg tempId data m = m" if "m \<in> set prev" for m
      using h that by (auto simp: u steps_defined_update)
    then show "onMessage tempId data prev = prev"
      by (simp add: onMessage_def map_idI)
  qed
  show ?thesis using 1 2 3 by (simp add: onMessage_def)
qed

theorem keepalive_leaves_messages_unchanged_witness:
  "status \<lparr>status = ''keepalive'', error = None, response = [], tool_name = None, tool_args = None,
           tool_result = None, info = None\<rparr> = ''keepalive'' \<and>
   onMessage 7 \<lparr>status = ''keepalive'', error = None, response = [], tool_name = None, tool_args = None,
           tool_result = None, info = None\<rparr> [optimisticMessage 7 ''t'' ''hi'' ''c'']
     = [optimisticMessage 7 ''t'' ''hi'' ''c'']"
  using keepalive_leaves_messages_unchanged
    [of "\<lparr>status = ''keepalive'', error = None, response = [], tool_name = None, tool_args = None,
           tool_result = None, info = None\<rparr>" 7 "[optimisticMessage 7 ''t'' ''hi'' ''c'']"]
  by (simp add: optimisticMessage_def)

subsection \<open>Tool results and the tool calls they are attached to\<close>

text \<open>
  Claim C2, as the code has it. The handler has no call id to go by: a
  \<open>tool_result\<close> event is attached to the last tool step that is still loading. So
  in every sequence of stream events in which \<open>n\<close> \<open>tool_call\<close> events are followed
  later by \<open>n\<close> \<open>tool_result\<close> events, whatever other events (\<open>tool_running\<close>,
  \<open>keepalive\<close>, \<open>searching\<close>, \<open>response\<close>, ...) arrive before, between and after
  them, the tool steps keep the order of the calls, and the \<open>k\<close>-th result that
  arrives is attached to the \<open>k\<close>-th call counted from the end: the results are paired
  with the calls in reverse arrival order. The sequence is \<open>earlier @ later\<close>, where
  \<open>earlier\<close> holds the calls and no result and \<open>later\<close> holds the results and no
  call; the tool steps the message had before come first, unchanged.
\<close>

theorem tool_results_attach_last_in_first_out:
  assumes "\<forall>e\<in>set earlier. status e \<noteq> ''tool_result''"
    and "\<forall>e\<in>set later. status e \<noteq> ''tool_call''"
    and "length (filter (\<lambda>e. status e = ''tool_call'') earlier)
         = length (filter (\<lambda>e. status e = ''tool_result'') later)"
    and "i < length msgs"
    and "msg_id (msgs ! i) = tempId"
  shows "filter (\<lambda>s. step_type s = Tool) (stepsOrEmpty (processStream tempId (earlier @ later) msgs ! i))
         = filter (\<lambda>s. step_type s = Tool) (stepsOrEmpty (msgs ! i))
           @ map2 (\<lambda>c r. finishStep r (toolStep c))
               (filter (\<lambda>e. status e = ''tool_call'') earlier)
               (rev (filter (\<lambda>e. status e = ''tool_result'') later))"
proof -
  let ?f = "\<lambda>m data. updateMsg tempId data m"
  let ?m = "foldl ?f (msgs ! i) earlier"
  have c: "filter (\<lambda>s. step_type s = Tool) (stepsOrEmpty ?m)
           = filter (\<lambda>s. step_type s = Tool) (stepsOrEmpty (msgs ! i))
             @ map toolStep (filter (\<lambda>e. status e = ''tool_call'') earlier) @ []"
    and ci: "msg_id ?m = tempId"
    using calls_fold[OF assms(5) assms(1)] by simp_all
  have "filter (\<lambda>s. step_type s = Tool) (stepsOrEmpty (foldl ?f ?m later))
        = filter (\<lambda>s. step_type s = Tool) (stepsOrEmpty (msgs ! i))
          @ map2 (\<lambda>c r. finishStep r (toolStep c))
              (filter (\<lambda>e. status e = ''tool_call'') earlier)
              (rev (filter (\<lambda>e. status e = ''tool_result'') later)) @ []"
    by (rule results_fold[OF ci assms(2) assms(3) _ c]) simp
  then show ?thesis using assms(4) by (simp add: processStream_map)
qed

theorem tool_results_attach_last_in_first_out_witness:
  "map (\<lambda>s. (toolName s, toolResult s))
     (filter (\<lambda>s. step_type s = Tool) (stepsOrEmpty (processStream 1
        ([\<lparr>status = ''tool_call'', error = None, response = [], tool_name = Some ''A'', tool_args = None, tool_result = None, info = None\<rparr>,
          \<lparr>status = ''tool_running'', error = None, response = [], tool_name = Some ''A'', tool_args = None, tool_result = None, info = None\<rparr>,
          \<lparr>status = ''tool_call'', error = None, response = [], tool_name = Some ''B'', tool_args = None, tool_result = None, info = None\<rparr>,
          \<lparr>status = ''keepalive'', error = None, response = [], tool_name = None, tool_args = None, tool_result = None, info = None\<rparr>] @
         [\<lparr>status = ''tool_result'', error = None, response = [], tool_name = Some ''B'', tool_args = None, tool_result = Some ''rb'', info = None\<rparr>,
          \<lparr>status = ''response'', error = None, response = ''so'', tool_name = None, tool_args = None, tool_result = None, info = None\<rparr>,
          \<lparr>status = ''tool_result'', error = None, response = [], tool_name = Some ''A'', tool_args = None, tool_result = Some ''ra'', info = None\<rparr>,
          \<lparr>status = ''keepalive'', error = None, response = [], tool_name = None, tool_args = None, tool_result = None, info = None\<rparr>])
        [optimisticMessage 1 ''t'' ''q'' ''c''] ! 0)))
   = [(Some ''A'', Some ''ra''), (Some ''B'', Some ''rb'')]"
proof -
  let ?cs = "[\<lparr>status = ''tool_call'', error = None, response = [], tool_name = Some ''A'', tool_args = None, tool_result = None, info = None\<rparr>,
          \<lparr>status = ''tool_running'', error = None, response = [], tool_name = Some ''A'', tool_args = None, tool_result = None, info = None\<rparr>,
          \<lparr>status = ''tool_call'', error = None, response = [], tool_name = Some ''B'', tool_args = None, tool_result = None, info = None\<rparr>,
          \<lparr>status = ''keepalive'', error = None, response = [], tool_name = None, tool_args = None, tool_result = None, info = None\<rparr>]"
  let ?rs = "[\<lparr>status = ''tool_result'', error = None, response = [], tool_name = Some ''B'', tool_args = None, tool_result = Some ''rb'', info = None\<rparr>,
          \<lparr>status = ''response'', error = None, response = ''so'', tool_name = None, tool_args = None, tool_result = None, info = None\<rparr>,
          \<lparr>status = ''tool_result'', error = None, response = [], tool_name = Some ''A'', tool_args = None, tool_result = Some ''ra'', info = None\<rparr>,
          \<lparr>status = ''keepalive'', error = None, response = [], tool_name = None, tool_args = None, tool_result = None, info = None\<rparr>]"
  let ?msgs = "[optimisticMessage 1 ''t'' ''q'' ''c'']"
  have h1: "\<forall>e\<in>set ?cs. status e \<noteq> ''tool_result''" by simp
  have h2: "\<forall>e\<in>set ?rs. status e \<noteq> ''tool_call''" by simp
  have h3: "length (filter (\<lambda>e. status e = ''tool_call'') ?cs)
            = length (filter (\<lambda>e. status e = ''tool_result'') ?rs)" by simp
  have h4: "0 < length ?msgs" by simp
  have h5: "msg_id (?msgs ! 0) = 1" by (simp add: optimisticMessage_def)
  have e: "filter (\<lambda>s. step_type s = Tool) (stepsOrEmpty (processStream 1 (?cs @ ?rs) ?msgs ! 0))
           = filter (\<lambda>s. step_type s = Tool) (stepsOrEmpty (?msgs ! 0))
             @ map2 (\<lambda>c r. finishStep r (toolStep c))
                 (filter (\<lambda>e. status e = ''tool_call'') ?cs)
                 (rev (filter (\<lambda>e. status e = ''tool_result'') ?rs))"
    by (rule tool_results_attach_last_in_first_out[OF h1 h2 h3 h4 h5])
  have v: "map (\<lambda>s. (toolName s, toolResult s))
             (filter (\<lambda>s. step_type s = Tool) (stepsOrEmpty (?msgs ! 0))
              @ map2 (\<lambda>c r. finishStep r (toolStep c))
                  (filter (\<lambda>e. status e = ''tool_call'') ?cs)
                  (rev (filter (\<lambda>e. status e = ''tool_result'') ?rs)))
           = [(Some ''A'', Some ''ra''), (Some ''B'', Some ''rb'')]"
    by code_simp
  show ?thesis unfolding e by (rule v)
qed

text \<open>
  The claim as the specification states it fails: two calls \<open>A\<close>, \<open>B\<close> whose results
  arrive in request order (the result of \<open>A\<close> first) end with the result of \<open>A\<close> on
  the step of \<open>B\<close> and the result of \<open>B\<close> on the step of \<open>A\<close>.
\<close>

theorem tool_result_not_attached_to_own_call:
  "map (\<lambda>s. (toolName s, toolResult s))
     (stepsOrEmpty (last (processStream 1
        [\<lparr>status = ''tool_call'', error = None, response = [], tool_name = Some ''A'', tool_args = None, tool_result = None, info = None\<rparr>,
         \<lparr>status = ''tool_call'', error = None, response = [], tool_name = Some ''B'', tool_args = None, tool_result = None, info = None\<rparr>,
         \<lparr>status = ''tool_result'', error = None, response = [], tool_name = Some ''A'', tool_args = None, tool_result = Some ''ra'', info = None\<rparr>,
         \<lparr>status = ''tool_result'', error = None, response = [], tool_name = Some ''B'', tool_args = None, tool_result = Some ''rb'', info = None\<rparr>]
        [optimisticMessage 1 ''t'' ''q'' ''c''])))
   = [(Some ''A'', Some ''rb''), (Some ''B'', Some ''ra'')]"
  by code_simp

section \<open>Properties of the stream client\<close>

subsection \<open>Auxiliary facts about the fallback parser\<close>

lemma setProp_lookup:
  "k \<noteq> ''__proto__'' \<Longrightarrow> map_of (fst (setProp k' v st)) k = (if k' = k then Some v else map_of (fst st) k)"
  by (cases st) (auto simp: setProp_def update_conv')

lemma fold_setProp_lookup:
  "k \<noteq> ''__proto__'' \<Longrightarrow>
   map_of (fst (foldl (\<lambda>st (k, raw). setProp k (f raw) st) st ps)) k
     = (case map_of (rev ps) k of None \<Rightarrow> map_of (fst st) k | Some raw \<Rightarrow> Some (f raw))"
proof (induction ps arbitrary: st)
  case Nil
  then show ?case by simp
next
  case (Cons p ps)
  obtain k' raw where p: "p = (k', raw)" by (cases p)
  show ?case using Cons.IH[of "setProp k' (f raw) st"] Cons.prems
    by (auto simp: p setProp_lookup map_add_def split: option.splits)
qed

subsection \<open>Lines and chunks\<close>

lemma splitNL_not_Nil: "splitNL s \<noteq> []"
  by (induction s) (auto split: list.splits)

lemma splitNL_Cons:
  "splitNL (c # cs) =
     (if c = CHR 0x0A then [] # splitNL cs else (c # hd (splitNL cs)) # tl (splitNL cs))"
  using splitNL_not_Nil[of cs] by (cases "splitNL cs") auto

lemma splitNL_no_newline: "CHR 0x0A \<notin> set s \<Longrightarrow> splitNL s = [s]"
  by (induction s) auto

lemma last_splitNL_no_newline: "CHR 0x0A \<notin> set (last (splitNL s))"
proof (induction s)
  case Nil
  show ?case by simp
next
  case (Cons c s)
  show ?case
  proof (cases "splitNL s")
    case Nil
    then show ?thesis using splitNL_not_Nil[of s] by simp
  next
    case (Cons l ls)
    then show ?thesis using Cons.IH by (cases ls) auto
  qed
qed

lemma splitNL_append:
  "splitNL (a @ b) = butlast (splitNL a) @ splitNL (last (splitNL a) @ b)"
proof (induction a)
  case Nil
  show ?case by simp
next
  case (Cons x a)
  have ne: "splitNL a \<noteq> []" by (rule splitNL_not_Nil)
  show ?case
  proof (cases "x = CHR 0x0A")
    case True
    then show ?thesis using Cons.IH ne by simp
  next
    case False
    show ?thesis
    proof (cases "splitNL a")
      case Nil
      then show ?thesis using ne by simp
    next
      case S: (Cons s1 S')
      show ?thesis
      proof (cases "S' = []")
        case True
        have 1: "splitNL (x # a) = [x # s1]" using False S True by simp
        have 2: "splitNL (a @ b) = splitNL (s1 @ b)" using Cons.IH S True by simp
        have "splitNL ((x # a) @ b) = splitNL ((x # s1) @ b)"
          using False by (simp add: 2)
        then show ?thesis by (simp add: 1 del: splitNL.simps)
      next
        case F: False
        have 1: "splitNL (x # a) = (x # s1) # S'" using False S by simp
        have 2: "splitNL (a @ b) = (s1 # butlast S') @ splitNL (last S' @ b)"
          using Cons.IH S F by simp
        have 3: "splitNL (x # a @ b) = (x # s1) # butlast S' @ splitNL (last S' @ b)"
          using False by (simp add: 2)
        show ?thesis using F by (simp add: 1 3 del: splitNL.simps)
      qed
    qed
  qed
qed

lemma processChunks_lines:
  "CHR 0x0A \<notin> set buffer \<Longrightarrow>
   foldl (\<lambda>s chunk. processChunk jp tn chunk s) (buffer, st) chunks
     = (last (splitNL (buffer @ concat chunks)),
        foldl (\<lambda>s line. processLine jp tn line s) st (butlast (splitNL (buffer @ concat chunks))))"
proof (induction chunks arbitrary: buffer st)
  case Nil
  then show ?case by (simp add: splitNL_no_newline)
next
  case (Cons c cs)
  let ?L1 = "splitNL (buffer @ c)"
  let ?L2 = "splitNL (last ?L1 @ concat cs)"
  have nl: "CHR 0x0A \<notin> set (last ?L1)" by (rule last_splitNL_no_newline)
  have ne: "?L2 \<noteq> []" by (rule splitNL_not_Nil)
  have s: "splitNL (buffer @ concat (c # cs)) = butlast ?L1 @ ?L2"
    using splitNL_append[of "buffer @ c" "concat cs"] by simp
  have "foldl (\<lambda>s chunk. processChunk jp tn chunk s) (buffer, st) (c # cs)
        = foldl (\<lambda>s chunk. processChunk jp tn chunk s)
            (last ?L1, foldl (\<lambda>s line. processLine jp tn line s) st (butlast ?L1)) cs"
    by (simp add: processChunk_def Let_def)
  also have "\<dots> = (last ?L2,
        foldl (\<lambda>s line. processLine jp tn line s)
          (foldl (\<lambda>s line. processLine jp tn line s) st (butlast ?L1)) (butlast ?L2))"
    by (rule Cons.IH[OF nl])
  also have "\<dots> = (last (splitNL (buffer @ concat (c # cs))),
        foldl (\<lambda>s line. processLine jp tn line s) st
          (butlast (splitNL (buffer @ concat (c # cs)))))"
    unfolding s using ne by (simp add: butlast_append)
  finally show ?case .
qed

text \<open>
  The events of a whole stream are those of its complete lines, in order, however the
  text is cut into chunks: every line that ends in a line feed is processed once, by
  \<open>processLine\<close>.
\<close>

lemma streamQuestion_lines:
  "streamQuestion jp tn True (Some (chunks, ending))
     = (snd (foldl (\<lambda>s line. processLine jp tn line s) (''message'', [])
               (butlast (splitNL (concat chunks)))),
        (case ending of EndOfStream \<Rightarrow> OnComplete | ReadFailure \<Rightarrow> OnError))"
  using processChunks_lines[of "[]" jp tn "(''message'', [])" chunks]
  by (simp add: streamQuestion_def)

subsection \<open>What a line delivers\<close>

lemma data_line_not_other:
  assumes "startsWith line ''data:''"
  shows "line \<noteq> [] \<and> \<not> startsWith line '':'' \<and> \<not> startsWith line ''event:''"
proof -
  from assms have t: "take (length ''data:'') line = ''data:''"
    unfolding startsWith_def .
  have "line = take (length ''data:'') line @ drop (length ''data:'') line"
    by simp
  then have "line = ''data:'' @ drop (length ''data:'') line"
    unfolding t .
  then obtain rest where l: "line = ''data:'' @ rest"
    by blast
  show ?thesis
    by (simp add: l startsWith_def)
qed

lemma processLine_delivered:
  "snd (processLine jsonParse toNumber line (currentEvent, delivered)) =
     delivered @
     (if startsWith line ''data:'' \<and> trim (drop 5 line) \<noteq> [] \<and> trim (drop 5 line) \<noteq> ''null''
         \<and> currentEvent = ''message'' then
        (if startsWith (trim (drop 5 line)) ''{'' then
           (case jsonParse (trim (drop 5 line)) of None \<Rightarrow> [] | Some data \<Rightarrow> [FromJson data])
         else [FromPython (parsePythonObject toNumber (trim (drop 5 line)))])
      else [])"
proof (cases "startsWith line ''data:''")
  case True
  from data_line_not_other[OF True] show ?thesis using True
    by (auto simp: processLine_def Let_def split: option.splits)
next
  case False
  then show ?thesis by (simp add: processLine_def Let_def)
qed

text \<open>
  Claim C1, as the code has it. A line hands at most one event to the caller, and
  only when it is a data line whose trimmed payload is neither empty nor \<open>null\<close>
  and the current event type is \<open>message\<close>: when the payload starts with \<open>{\<close> the
  event is the value of \<open>JSON.parse\<close>, and nothing is delivered when \<open>JSON.parse\<close>
  throws; when the payload does not start with \<open>{\<close> the event is built by the
  key=value fallback parser \<open>parsePythonObject\<close>, which never fails.
\<close>

theorem data_line_delivery:
  "snd (processLine jsonParse toNumber line (currentEvent, delivered)) =
     delivered @
     (if startsWith line ''data:'' \<and> trim (drop 5 line) \<noteq> [] \<and> trim (drop 5 line) \<noteq> ''null''
         \<and> currentEvent = ''message'' then
        (if startsWith (trim (drop 5 line)) ''{'' then
           (case jsonParse (trim (drop 5 line)) of None \<Rightarrow> [] | Some data \<Rightarrow> [FromJson data])
         else [FromPython (parsePythonObject toNumber (trim (drop 5 line)))])
      else [])"
  by (rule processLine_delivered)

theorem data_line_delivery_witness:
  "snd (processLine (\<lambda>s. Some s) digitsToNumber ''data: {}'' (''message'', []))
     = [FromJson ''{}''] \<and>
   snd (processLine (\<lambda>s. Some s) digitsToNumber ''data: status='response' response='hello' error=None'' (''message'', []))
     = [FromPython [(''status'', PStr ''response''), (''response'', PStr ''hello''), (''error'', PNull),
                    (''tool_name'', PNull), (''tool_args'', PNull), (''tool_result'', PNull),
                    (''info'', PNull)]]"
proof -
  let ?l1 = "''data: {}''"
  let ?l2 = "''data: status='response' response='hello' error=None''"
  have v1: "[] @ (if startsWith ?l1 ''data:'' \<and> trim (drop 5 ?l1) \<noteq> [] \<and> trim (drop 5 ?l1) \<noteq> ''null''
                     \<and> ''message'' = ''message'' then
              (if startsWith (trim (drop 5 ?l1)) ''{'' then
                 (case Some (trim (drop 5 ?l1)) of None \<Rightarrow> [] | Some data \<Rightarrow> [FromJson data])
               else [FromPython (parsePythonObject digitsToNumber (trim (drop 5 ?l1)))])
            else []) = [FromJson ''{}'']"
    by code_simp
  have v2: "[] @ (if startsWith ?l2 ''data:'' \<and> trim (drop 5 ?l2) \<noteq> [] \<and> trim (drop 5 ?l2) \<noteq> ''null''
                     \<and> ''message'' = ''message'' then
              (if startsWith (trim (drop 5 ?l2)) ''{'' then
                 (case Some (trim (drop 5 ?l2)) of None \<Rightarrow> [] | Some data \<Rightarrow> [FromJson data])
               else [FromPython (parsePythonObject digitsToNumber (trim (drop 5 ?l2)))])
            else []) =
        [FromPython [(''status'', PStr ''response''), (''response'', PStr ''hello''), (''error'', PNull),
                    (''tool_name'', PNull), (''tool_args'', PNull), (''tool_result'', PNull),
                    (''info'', PNull)]]"
    by code_simp
  show ?thesis
    using data_line_delivery[of "\<lambda>s. Some s" digitsToNumber ?l1 "''message''" "[]"]
          data_line_delivery[of "\<lambda>s. Some s" digitsToNumber ?l2 "''message''" "[]"]
    unfolding v1 v2 by (rule conjI)
qed

text \<open>
  The claim as the specification states it fails: a data line that is not JSON still
  hands an event to the caller, through the fallback parser. (\<open>JSON.parse\<close> is not
  called on this line; it stands here as a parser that rejects every text.)
\<close>

theorem non_json_data_line_is_delivered:
  "streamQuestion (\<lambda>_. None :: unit option) digitsToNumber True
     (Some ([''data: status='response' response='hi' error=None'' @ [CHR 0x0A]], EndOfStream))
   = ([FromPython [(''status'', PStr ''response''), (''response'', PStr ''hi''), (''error'', PNull),
                   (''tool_name'', PNull), (''tool_args'', PNull), (''tool_result'', PNull),
                   (''info'', PNull)]], OnComplete)"
  by code_simp

subsection \<open>The fields of a delivered event\<close>

text \<open>
  Claim C3, as the code has it. The event that a data line hands to the caller through
  the fallback parser has all seven fields of \<open>StreamMessageResponse\<close>. Each holds
  the value of the last key=value pair of the line that names it, converted as the
  parser converts it, and otherwise its default: the empty string for \<open>status\<close> and
  \<open>response\<close>, \<open>null\<close> for \<open>error\<close>, \<open>tool_name\<close>, \<open>tool_args\<close>,
  \<open>tool_result\<close> and \<open>info\<close>. Nothing compares \<open>status\<close> with the eight protocol
  statuses or empties \<open>response\<close>.
\<close>

theorem fallback_event_fields:
  fixes toNumber :: "string \<Rightarrow> 'n option"
  assumes "startsWith line ''data:''"
    and "trim (drop 5 line) \<noteq> []"
    and "trim (drop 5 line) \<noteq> ''null''"
    and "\<not> startsWith (trim (drop 5 line)) ''{''"
    and "k \<in> {''status'', ''response'', ''error'', ''tool_name'', ''tool_args'', ''tool_result'', ''info''}"
  shows "snd (processLine jsonParse toNumber line (''message'', delivered))
           = delivered @ [FromPython (parsePythonObject toNumber (trim (drop 5 line)))] \<and>
         map_of (parsePythonObject toNumber (trim (drop 5 line))) k =
           Some (case map_of (rev (scanPairs (trim (drop 5 line)))) k of
                   Some raw \<Rightarrow> convertValue toNumber raw
                 | None \<Rightarrow> if k = ''status'' \<or> k = ''response'' then PStr [] else PNull)"
proof -
  let ?s = "trim (drop 5 line)"
  have np: "k \<noteq> ''__proto__''" using assms(5) by auto
  have d: "map_of (defaultEvent :: 'n pyobj) k =
             Some (if k = ''status'' \<or> k = ''response'' then PStr [] else PNull)"
    using assms(5) by (auto simp: defaultEvent_def)
  have "map_of (parsePythonObject toNumber ?s) k =
          (case map_of (rev (scanPairs ?s)) k of
             None \<Rightarrow> map_of (defaultEvent :: 'n pyobj) k
           | Some raw \<Rightarrow> Some (convertValue toNumber raw))"
    unfolding parsePythonObject_def by (simp add: fold_setProp_lookup[OF np] split: option.splits)
  then have f: "map_of (parsePythonObject toNumber ?s) k =
           Some (case map_of (rev (scanPairs ?s)) k of
                   Some raw \<Rightarrow> convertValue toNumber raw
                 | None \<Rightarrow> if k = ''status'' \<or> k = ''response'' then PStr [] else PNull)"
    unfolding d by (cases "map_of (rev (scanPairs ?s)) k") simp_all
  have e: "snd (processLine jsonParse toNumber line (''message'', delivered))
           = delivered @ [FromPython (parsePythonObject toNumber ?s)]"
    using assms(1-4) by (simp add: processLine_delivered)
  show ?thesis using e f by (rule conjI)
qed

theorem fallback_event_fields_witness:
  "snd (processLine (\<lambda>_. None :: unit option) digitsToNumber
          ''data: status='response' error=None response='hello' tool_name=None'' (''message'', []))
     = [FromPython (parsePythonObject digitsToNumber ''status='response' error=None response='hello' tool_name=None'')] \<and>
   map_of (parsePythonObject digitsToNumber ''status='response' error=None response='hello' tool_name=None'')
     ''response'' = Some (PStr ''hello'')"
proof -
  let ?l = "''data: status='response' error=None response='hello' tool_name=None''"
  let ?s = "''status='response' error=None response='hello' tool_name=None''"
  have t: "trim (drop 5 ?l) = ?s" by code_simp
  have a1: "startsWith ?l ''data:''" by code_simp
  have a2: "trim (drop 5 ?l) \<noteq> []" and a3: "trim (drop 5 ?l) \<noteq> ''null''"
    and a4: "\<not> startsWith (trim (drop 5 ?l)) ''{''"
    unfolding t by code_simp+
  have h: "''response'' \<in> {''status'', ''response'', ''error'', ''tool_name'', ''tool_args'', ''tool_result'', ''info''}"
    by simp
  have v: "Some (case map_of (rev (scanPairs ?s)) ''response'' of
                   Some raw \<Rightarrow> convertValue digitsToNumber raw
                 | None \<Rightarrow> if ''response'' = ''status'' \<or> ''response'' = ''response'' then PStr [] else PNull)
           = Some (PStr ''hello'' :: nat pyval)"
    by code_simp
  show ?thesis
    using fallback_event_fields[OF a1 a2 a3 a4 h, of "\<lambda>_. None :: unit option" digitsToNumber "[]"]
    unfolding t v by simp
qed

text \<open>
  The claim as the specification states it fails: the line below is delivered with a
  status outside the eight protocol statuses and with a non-empty \<open>response\<close>.
\<close>

theorem delivered_event_with_unknown_status:
  "streamQuestion (\<lambda>_. None :: unit option) digitsToNumber True
     (Some ([''data: status='done' response='x' error=None'' @ [CHR 0x0A]], EndOfStream))
   = ([FromPython [(''status'', PStr ''done''), (''response'', PStr ''x''), (''error'', PNull),
                   (''tool_name'', PNull), (''tool_args'', PNull), (''tool_result'', PNull),
                   (''info'', PNull)]], OnComplete) \<and>
   ''done'' \<notin> {''searching'', ''tool_call'', ''tool_running'', ''tool_result'', ''response'',
                ''end_turn'', ''keepalive'', ''error''}"
proof
  show "streamQuestion (\<lambda>_. None :: unit option) digitsToNumber True
     (Some ([''data: status='done' response='x' error=None'' @ [CHR 0x0A]], EndOfStream))
   = ([FromPython [(''status'', PStr ''done''), (''response'', PStr ''x''), (''error'', PNull),
                   (''tool_name'', PNull), (''tool_args'', PNull), (''tool_result'', PNull),
                   (''info'', PNull)]], OnComplete)"
    by code_simp
  show "''done'' \<notin> {''searching'', ''tool_call'', ''tool_running'', ''tool_result'', ''response'',
                ''end_turn'', ''keepalive'', ''error''}"
    by simp
qed

section \<open>Properties of the query string builder\<close>

lemma spSet_fresh: "k \<notin> fst ` set sp \<Longrightarrow> spSet k v sp = sp @ [(k, v)]"
  by (induction sp) auto

lemma fold_addParam:
  "distinct (map fst es) \<Longrightarrow> fst ` set sp \<inter> fst ` set es = {} \<Longrightarrow>
   foldl (addParam f) sp es
     = sp @ map (\<lambda>(k, v). (k, jsString f v)) (filter (\<lambda>(k, v). \<not> nullish v) es)"
proof (induction es arbitrary: sp)
  case Nil
  then show ?case by simp
next
  case (Cons e es)
  obtain k v where e: "e = (k, v)" by (cases e)
  have d: "distinct (map fst es)" and k: "k \<notin> fst ` set es" and ksp: "k \<notin> fst ` set sp"
    and dis: "fst ` set sp \<inter> fst ` set es = {}"
    using Cons.prems by (auto simp: e)
  show ?case
  proof (cases "nullish v")
    case True
    then show ?thesis using Cons.IH[OF d dis] by (simp add: e addParam_def)
  next
    case False
    have dis': "fst ` set (sp @ [(k, jsString f v)]) \<inter> fst ` set es = {}"
      using dis k by auto
    show ?thesis using False Cons.IH[OF d dis'] by (simp add: e addParam_def spSet_fresh[OF ksp])
  qed
qed

lemma serializeParams_empty: "(serializeParams ps = []) = (ps = [])"
  by (induction ps rule: serializeParams.induct) auto

text \<open>
  Claim C9. \<open>buildQueryString\<close> returns the empty string when \<open>params\<close> is
  \<open>undefined\<close> or every value in it is \<open>null\<close> or \<open>undefined\<close>; otherwise it
  returns \<open>?\<close> followed by the serialisation of exactly the entries whose values are
  neither \<open>null\<close> nor \<open>undefined\<close>, in the order of the record, each value converted
  with \<open>String\<close>. The keys of a record are distinct.
\<close>

theorem buildQueryString_entries:
  assumes "distinct (map fst entries)"
  shows "buildQueryString numToString None = [] \<and>
         buildQueryString numToString (Some entries) =
           (if (\<forall>(k, v)\<in>set entries. nullish v) then []
            else ''?'' @ serializeParams
                   (map (\<lambda>(k, v). (k, jsString numToString v))
                      (filter (\<lambda>(k, v). \<not> nullish v) entries)))"
proof -
  let ?kept = "map (\<lambda>(k, v). (k, jsString numToString v)) (filter (\<lambda>(k, v). \<not> nullish v) entries)"
  have f: "foldl (addParam numToString) [] entries = ?kept"
    using fold_addParam[OF assms, of "[]" numToString] by simp
  have e: "(?kept = []) = (\<forall>(k, v)\<in>set entries. nullish v)"
    by (auto simp: filter_empty_conv)
  have n: "buildQueryString numToString None = []"
    by (simp add: buildQueryString_def)
  have b: "buildQueryString numToString (Some entries) =
             (if serializeParams ?kept \<noteq> [] then ''?'' @ serializeParams ?kept else [])"
    by (simp add: buildQueryString_def Let_def f)
  show ?thesis
  proof (cases "\<forall>(k, v)\<in>set entries. nullish v")
    case True
    then have "?kept = []" using e by blast
    then have "buildQueryString numToString (Some entries) = []" unfolding b by simp
    then show ?thesis using n True by simp
  next
    case False
    then have "?kept \<noteq> []" using e by blast
    then have "serializeParams ?kept \<noteq> []" by (simp only: serializeParams_empty not_False_eq_True)
    then have "buildQueryString numToString (Some entries) = ''?'' @ serializeParams ?kept"
      unfolding b by simp
    then show ?thesis using n False by simp
  qed
qed

theorem buildQueryString_entries_witness:
  "buildQueryString showNat (Some [(''page_number'', QNum 2), (''page_size'', QUndefined)])
     = ''?page_number=2'' \<and>
   buildQueryString showNat (Some [(''page_number'', QNull), (''page_size'', QUndefined)]) = []"
proof -
  let ?e1 = "[(''page_number'', QNum (2::nat)), (''page_size'', QUndefined)]"
  let ?e2 = "[(''page_number'', QNull :: nat qvalue), (''page_size'', QUndefined)]"
  have d1: "distinct (map fst ?e1)" and d2: "distinct (map fst ?e2)" by simp_all
  have v1: "(if (\<forall>(k, v)\<in>set ?e1. nullish v) then []
            else ''?'' @ serializeParams
                   (map (\<lambda>(k, v). (k, jsString showNat v))
                      (filter (\<lambda>(k, v). \<not> nullish v) ?e1))) = ''?page_number=2''"
    by code_simp
  have v2: "(if (\<forall>(k, v)\<in>set ?e2. nullish v) then []
            else ''?'' @ serializeParams
                   (map (\<lambda>(k, v). (k, jsString showNat v))
                      (filter (\<lambda>(k, v). \<not> nullish v) ?e2))) = []"
    by code_simp
  have r1: "buildQueryString showNat (Some ?e1) = ''?page_number=2''"
    using buildQueryString_entries[OF d1, of showNat] unfolding v1 by (rule conjunct2)
  have r2: "buildQueryString showNat (Some ?e2) = []"
    using buildQueryString_entries[OF d2, of showNat] unfolding v2 by (rule conjunct2)
  show ?thesis using r1 r2 by (rule conjI)
qed

section \<open>Properties of the path-parameter schema\<close>

lemma update_fresh: "k \<notin> fst ` set acc \<Longrightarrow> AList.update k v acc = acc @ [(k, v)]"
  by (induction acc) auto

lemma first_occurrences_Cons:
  "rev (remdups (rev (y # ys))) = y # filter (\<lambda>x. x \<noteq> y) (rev (remdups (rev ys)))"
proof -
  have "remdups (xs @ [y]) = remdups (filter (\<lambda>x. x \<noteq> y) xs) @ [y]" for xs
    by (induction xs) auto
  then have "remdups (rev ys @ [y]) = remdups (filter (\<lambda>x. x \<noteq> y) (rev ys)) @ [y]" .
  then show ?thesis
    by (simp add: remdups_filter rev_filter)
qed

lemma foldl_addName:
  "foldl addName acc ys = acc @ filter (\<lambda>y. y \<notin> set acc) (rev (remdups (rev ys)))"
proof (induction ys arbitrary: acc)
  case Nil
  then show ?case by simp
next
  case (Cons y ys)
  have "foldl addName acc (y # ys) = foldl addName (addName acc y) ys" by simp
  also have "\<dots> = addName acc y @ filter (\<lambda>x. x \<notin> set (addName acc y)) (rev (remdups (rev ys)))"
    by (rule Cons.IH)
  also have "\<dots> = acc @ filter (\<lambda>x. x \<notin> set acc) (y # filter (\<lambda>x. x \<noteq> y) (rev (remdups (rev ys))))"
    by (auto simp: addName_def intro: filter_cong)
  finally show ?case by (simp only: first_occurrences_Cons)
qed

lemma foldl_trim_addName:
  "foldl (\<lambda>names m. let name = trim m in if name \<noteq> [] then addName names name else names) acc ms
     = foldl addName acc (filter (\<lambda>n. n \<noteq> []) (map trim ms))"
  by (induction ms arbitrary: acc) (simp_all add: Let_def)

lemma extractPathParams_eq:
  "extractPathParams url = rev (remdups (rev (filter (\<lambda>n. n \<noteq> []) (map trim (braceMatches url)))))"
  by (simp add: extractPathParams_def foldl_trim_addName foldl_addName)

lemma foldl_assignProperty:
  "distinct names \<Longrightarrow> fst ` set acc \<inter> set names = {} \<Longrightarrow>
   foldl (assignProperty cp) acc names
     = acc @ map (\<lambda>p. (p, JObj (paramProperty cp p))) (filter (\<lambda>p. p \<noteq> ''__proto__'') names)"
proof (induction names arbitrary: acc)
  case Nil
  then show ?case by simp
next
  case (Cons p names)
  have d: "distinct names" and pn: "p \<notin> set names" and pa: "p \<notin> fst ` set acc"
    and dis: "fst ` set acc \<inter> set names = {}"
    using Cons.prems by auto
  show ?case
  proof (cases "p = ''__proto__''")
    case True
    then show ?thesis using Cons.IH[OF d dis] by (simp add: assignProperty_def)
  next
    case False
    have u: "AList.update p v acc = acc @ [(p, v)]" for v
      using pa by (rule update_fresh)
    have dis': "fst ` set (acc @ [(p, JObj (paramProperty cp p))]) \<inter> set names = {}"
      using dis pn by auto
    show ?thesis using False Cons.IH[OF d dis'] by (simp add: assignProperty_def u)
  qed
qed

lemma map_of_tabulate:
  "p \<in> set xs \<Longrightarrow> map_of (map (\<lambda>p. (p, f p)) xs) p = Some (f p)"
  by (induction xs) auto

lemma fillDefaults_defaultParam: "fillDefaults p (defaultParam p) = defaultParam p"
  by (simp add: fillDefaults_def defaultParam_def truthy_def defaultParamDescription_def)

text \<open>
  Claim C8, as the code has it. For every webhook URL and prior schema \<open>s\<close>, the
  schema built from the URL has type \<open>object\<close>; its \<open>required\<close> list is the
  distinct non-empty trimmed names found inside braces in the URL, in the order of
  their first occurrence; its properties are those names (the statement is about
  the names and property keys other than \<open>__proto__\<close>). The property of a name is
  a copy of the property \<open>s\<close> has for it, with a missing or falsy \<open>type\<close> set to
  \<open>string\<close> and a missing or falsy \<open>description\<close> set to the default text, when
  \<open>s\<close> is an object whose \<open>type\<close> is \<open>object\<close> and that property is itself an
  object or an array; in every other case it is the default property of type
  \<open>string\<close>.
\<close>

theorem path_params_schema:
  fixes s :: "('n::zero) json option"
  shows
  "extractPathParams url = rev (remdups (rev (filter (\<lambda>n. n \<noteq> []) (map trim (braceMatches url))))) \<and>
   getOwn (buildPathParamsSchema (extractPathParams url) s) ''type'' = Some (JStr ''object'') \<and>
   getOwn (buildPathParamsSchema (extractPathParams url) s) ''required''
     = Some (JArr (map JStr (extractPathParams url))) \<and>
   (\<exists>props. getOwn (buildPathParamsSchema (extractPathParams url) s) ''properties'' = Some (JObj props) \<and>
      distinct (map fst props) \<and>
      set (map fst props) - {''__proto__''} = set (extractPathParams url) - {''__proto__''} \<and>
      (\<forall>p\<in>set (extractPathParams url). p \<noteq> ''__proto__'' \<longrightarrow>
         (\<forall>existing.
            currentIsObject s \<and> getOwn (currentProps s) p = Some existing \<and>
            truthy existing \<and> typeofObject existing \<longrightarrow>
              map_of props p = Some (JObj (fillDefaults p (ownEntries existing)))) \<and>
         (\<not> currentIsObject s \<or>
          (case getOwn (currentProps s) p of
             None \<Rightarrow> True
           | Some existing \<Rightarrow> \<not> (truthy existing \<and> typeofObject existing)) \<longrightarrow>
              map_of props p = Some (JObj (defaultParam p)))))"
proof -
  let ?names = "extractPathParams url"
  let ?props = "map (\<lambda>p. (p, JObj (paramProperty (currentProps s) p))) (filter (\<lambda>p. p \<noteq> ''__proto__'') ?names)"
  have n: "?names = rev (remdups (rev (filter (\<lambda>n. n \<noteq> []) (map trim (braceMatches url)))))"
    by (rule extractPathParams_eq)
  have d: "distinct ?names" unfolding n by simp
  have f: "foldl (assignProperty (currentProps s)) [] ?names = ?props"
    using foldl_assignProperty[OF d, of "[]" "currentProps s"] by simp
  have t: "getOwn (buildPathParamsSchema ?names s) ''type'' = Some (JStr ''object'')"
    and r: "getOwn (buildPathParamsSchema ?names s) ''required'' = Some (JArr (map JStr ?names))"
    and p: "getOwn (buildPathParamsSchema ?names s) ''properties'' = Some (JObj ?props)"
    by (simp_all add: getOwn_def ownEntries_def buildPathParamsSchema_def f)
  have k0: "map fst ?props = filter (\<lambda>p. p \<noteq> ''__proto__'') ?names"
    by (simp add: comp_def)
  have k: "distinct (map fst ?props) \<and>
           set (map fst ?props) - {''__proto__''} = set ?names - {''__proto__''}"
    unfolding k0 using d by auto
  have l: "map_of ?props q = Some (JObj (paramProperty (currentProps s) q))"
    if "q \<in> set ?names" "q \<noteq> ''__proto__''" for q
    using that by (intro map_of_tabulate) simp
  have nc: "currentProps s = JObj []" if "\<not> currentIsObject s"
    using that by (cases s) (simp_all add: currentProps_def)
  have v: "(\<forall>existing.
            currentIsObject s \<and> getOwn (currentProps s) q = Some existing \<and>
            truthy existing \<and> typeofObject existing \<longrightarrow>
              map_of ?props q = Some (JObj (fillDefaults q (ownEntries existing)))) \<and>
         (\<not> currentIsObject s \<or>
          (case getOwn (currentProps s) q of
             None \<Rightarrow> True
           | Some existing \<Rightarrow> \<not> (truthy existing \<and> typeofObject existing)) \<longrightarrow>
              map_of ?props q = Some (JObj (defaultParam q)))"
    if q: "q \<in> set ?names" "q \<noteq> ''__proto__''" for q
  proof (intro conjI allI impI)
    fix existing
    assume "currentIsObject s \<and> getOwn (currentProps s) q = Some existing \<and>
            truthy existing \<and> typeofObject existing"
    then show "map_of ?props q = Some (JObj (fillDefaults q (ownEntries existing)))"
      by (simp only: l[OF q]) (simp add: paramProperty_def getProp_def)
  next
    assume a: "\<not> currentIsObject s \<or>
          (case getOwn (currentProps s) q of
             None \<Rightarrow> True
           | Some existing \<Rightarrow> \<not> (truthy existing \<and> typeofObject existing))"
    have "paramProperty (currentProps s) q = defaultParam q"
    proof (cases "currentIsObject s")
      case False
      then show ?thesis using q(2)
        by (simp add: nc paramProperty_def getProp_def getOwn_def ownEntries_def fillDefaults_defaultParam)
    next
      case True
      with a have "case getOwn (currentProps s) q of
             None \<Rightarrow> True
           | Some existing \<Rightarrow> \<not> (truthy existing \<and> typeofObject existing)" by simp
      then show ?thesis using q(2)
        by (auto simp: paramProperty_def getProp_def fillDefaults_defaultParam split: option.splits)
    qed
    then show "map_of ?props q = Some (JObj (defaultParam q))"
      by (simp add: l[OF q])
  qed
  show ?thesis
    using n t r p k v by blast
qed

theorem path_params_schema_witness:
  "buildPathParamsSchema (extractPathParams ''https://api.example.com/users/{ id }/posts/{postId}/{id}'')
     (Some (JObj [(''type'', JStr ''object''),
                  (''properties'', JObj [(''id'', JObj [(''type'', JStr ''integer'')])])]))
   = JObj [(''type'', JStr ''object''),
           (''description'', JStr defaultSchemaDescription),
           (''properties'',
              JObj [(''id'', JObj [(''type'', JStr ''integer''),
                                   (''description'', JStr (defaultParamDescription ''id''))]),
                    (''postId'', JObj (defaultParam ''postId''))]),
           (''required'', JArr [JStr ''id'', JStr ''postId'' :: nat json])] \<and>
   extractPathParams ''https://api.example.com/users/{ id }/posts/{postId}/{id}'' = [''id'', ''postId'']"
proof -
  let ?url = "''https://api.example.com/users/{ id }/posts/{postId}/{id}''"
  let ?s = "Some (JObj [(''type'', JStr ''object''),
                  (''properties'', JObj [(''id'', JObj [(''type'', JStr ''integer'' :: nat json)])])])"
  have e: "rev (remdups (rev (filter (\<lambda>n. n \<noteq> []) (map trim (braceMatches ?url))))) = [''id'', ''postId'']"
    by code_simp
  have n: "extractPathParams ?url = [''id'', ''postId'']"
    using path_params_schema[of ?url ?s] unfolding e by (rule conjunct1)
  have b: "buildPathParamsSchema [''id'', ''postId''] ?s
      = JObj [(''type'', JStr ''object''),
           (''description'', JStr defaultSchemaDescription),
           (''properties'',
              JObj [(''id'', JObj [(''type'', JStr ''integer''),
                                   (''description'', JStr (defaultParamDescription ''id''))]),
                    (''postId'', JObj (defaultParam ''postId''))]),
           (''required'', JArr [JStr ''id'', JStr ''postId''])]"
    by code_simp
  show ?thesis unfolding n using b by simp
qed

text \<open>
  The claim as the specification states it fails: a prior schema whose \<open>type\<close> is
  not \<open>object\<close> has a property for \<open>id\<close>, and the schema built for the URL does
  not reuse it.
\<close>

theorem existing_property_not_reused:
  "buildPathParamsSchema (extractPathParams ''/users/{id}'')
     (Some (JObj [(''properties'', JObj [(''id'', JObj [(''type'', JStr ''integer'')])])]))
   = JObj [(''type'', JStr ''object''),
           (''description'', JStr defaultSchemaDescription),
           (''properties'',
              JObj [(''id'', JObj [(''type'', JStr ''string''),
                                   (''description'', JStr (defaultParamDescription ''id''))])]),
           (''required'', JArr [JStr ''id'' :: nat json])]"
  by code_simp

section \<open>Properties of the schema editor's constraint enforcement\<close>

lemma foldl_assignNext:
  "distinct (map fst es) \<Longrightarrow> ''__proto__'' \<notin> set (map fst es) \<Longrightarrow> fst ` set acc \<inter> fst ` set es = {} \<Longrightarrow>
   foldl assignNext acc es = acc @ es"
proof (induction es arbitrary: acc)
  case Nil
  then show ?case by simp
next
  case (Cons e es)
  obtain k v where e: "e = (k, v)" by (cases e)
  have d: "distinct (map fst es)" and np: "''__proto__'' \<notin> set (map fst es)"
    and k: "k \<noteq> ''__proto__''" and ka: "k \<notin> fst ` set acc" and ke: "k \<notin> fst ` set es"
    and dis: "fst ` set acc \<inter> fst ` set es = {}"
    using Cons.prems by (auto simp: e)
  have dis': "fst ` set (acc @ [(k, v)]) \<inter> fst ` set es = {}"
    using dis ke by auto
  show ?case using Cons.IH[OF d np dis'] k by (simp add: e assignNext_def update_fresh[OF ka])
qed

lemma map_fst_entries: "map fst (map (\<lambda>(k, v). (k, f v)) props) = map fst props"
  by (induction props) auto

lemma enforce_object_built:
  assumes "distinct (map fst props)" and "''__proto__'' \<notin> set (map fst props)"
  shows "enforceConstraintsOnNode (ObjectNode d props req) depth r aa da afr =
           (if exceedsDepth da depth then PrimitiveNode TString d
            else ObjectNode d
                   (map (\<lambda>(k, v). (k, enforceConstraintsOnNode v (depth + 1) r aa da afr)) props)
                   (Some (if afr then map fst props
                          else filter (\<lambda>x. x \<in> set (map fst props) \<or> x \<in> set objectPrototypeNames)
                                 (case req of None \<Rightarrow> [] | Some rs \<Rightarrow> rs))))"
proof -
  let ?es = "map (\<lambda>(k, v). (k, enforceConstraintsOnNode v (depth + 1) r aa da afr)) props"
  have k: "map fst ?es = map fst props" by (rule map_fst_entries)
  have f: "foldl assignNext [] ?es = ?es"
    using foldl_assignNext[of ?es "[]"] assms by (simp only: k) simp
  have "''__proto__'' \<notin> fst ` set ?es"
    using assms(2) k by (metis set_map)
  then have "''__proto__'' \<notin> fst ` set (rev ?es)" by simp
  then have p: "map_of (rev ?es) ''__proto__'' = None"
    by (rule iffD2[OF map_of_eq_None_iff])
  have h: "nextPropsHas ?es None = (\<lambda>x. x \<in> set (map fst props) \<or> x \<in> set objectPrototypeNames)"
    by (rule ext) (simp only: nextPropsHas_def k option.case)
  show ?thesis
    by (simp only: enforceConstraintsOnNode.simps Let_def f p h k)
qed

lemma enforce_idempotent_at_depth:
  "builtByAssignment n \<Longrightarrow>
   enforceConstraintsOnNode (enforceConstraintsOnNode n depth r aa da afr) depth r aa da afr
     = enforceConstraintsOnNode n depth r aa da afr"
proof (induction n arbitrary: depth)
  case (PrimitiveNode t d)
  show ?case by simp
next
  case (ArrayNode d items)
  let ?i = "enforceConstraintsOnNode items (depth + 1) r aa da afr"
  have ih: "enforceConstraintsOnNode ?i (depth + 1) r aa da afr = ?i"
    using ArrayNode.IH ArrayNode.prems by simp
  show ?case
  proof (cases "(\<not> aa \<and> depth \<noteq> r) \<or> exceedsDepth da depth")
    case True
    then have "enforceConstraintsOnNode (ArrayNode d items) depth r aa da afr = PrimitiveNode TString d"
      by auto
    then show ?thesis by simp
  next
    case False
    then have 1: "enforceConstraintsOnNode (ArrayNode d items) depth r aa da afr = ArrayNode d ?i"
      by auto
    from False have 2: "enforceConstraintsOnNode (ArrayNode d ?i) depth r aa da afr
             = ArrayNode d (enforceConstraintsOnNode ?i (depth + 1) r aa da afr)"
      by auto
    show ?thesis by (simp only: 1 2 ih)
  qed
next
  case (ObjectNode d props req)
  let ?f = "\<lambda>(k, v). (k, enforceConstraintsOnNode v (depth + 1) r aa da afr)"
  let ?P = "\<lambda>x. x \<in> set (map fst props) \<or> x \<in> set objectPrototypeNames"
  let ?rs = "case req of None \<Rightarrow> [] | Some rs \<Rightarrow> rs"
  let ?req1 = "if afr then map fst props else filter ?P ?rs"
  have w1: "distinct (map fst props)" and w2: "''__proto__'' \<notin> set (map fst props)"
    and w3: "\<forall>(k, v)\<in>set props. builtByAssignment v"
    using ObjectNode.prems by simp_all
  have ih: "map ?f (map ?f props) = map ?f props"
    using ObjectNode.IH w3 by (auto simp: snds.simps)
  have k: "map fst (map ?f props) = map fst props" by (rule map_fst_entries)
  have 1: "enforceConstraintsOnNode (ObjectNode d props req) depth r aa da afr =
             (if exceedsDepth da depth then PrimitiveNode TString d
              else ObjectNode d (map ?f props) (Some ?req1))"
    by (rule enforce_object_built[OF w1 w2])
  have w1': "distinct (map fst (map ?f props))"
    unfolding k by (rule w1)
  have w2': "''__proto__'' \<notin> set (map fst (map ?f props))"
    unfolding k by (rule w2)
  have 2: "enforceConstraintsOnNode (ObjectNode d (map ?f props) (Some ?req1)) depth r aa da afr =
             (if exceedsDepth da depth then PrimitiveNode TString d
              else ObjectNode d (map ?f (map ?f props))
                     (Some (if afr then map fst (map ?f props)
                            else filter (\<lambda>x. x \<in> set (map fst (map ?f props)) \<or> x \<in> set objectPrototypeNames)
                                   (case Some ?req1 of None \<Rightarrow> [] | Some rs \<Rightarrow> rs))))"
    by (rule enforce_object_built[OF w1' w2'])
  have q: "(if afr then map fst (map ?f props)
            else filter (\<lambda>x. x \<in> set (map fst (map ?f props)) \<or> x \<in> set objectPrototypeNames)
                   (case Some ?req1 of None \<Rightarrow> [] | Some rs \<Rightarrow> rs)) = ?req1"
    by (simp only: k) simp
  show ?case
  proof (cases "exceedsDepth da depth")
    case True
    then show ?thesis by (simp add: 1)
  next
    case False
    then show ?thesis by (simp only: 1 2 ih q if_False)
  qed
qed

text \<open>
  Claim C10. For every schema node, and every choice of \<open>arrayAllowed\<close>,
  \<open>depthAllowed\<close> and \<open>allFieldsRequired\<close>, enforcing the constraints twice from
  the root depth gives the same schema as enforcing them once: the output of one pass
  is a fixed point of the function, which finds nothing left to replace or to filter in
  it. The nodes are the ones the function receives. Its two callers pass it the result
  of \<open>sanitizeIncomingSchema\<close>, of \<open>cloneNode\<close>, of the object editor or of an
  earlier pass, and each of these creates every \<open>properties\<close> record by assignment
  to a fresh object, so the keys of a record are distinct and none is an own property
  named \<open>__proto__\<close>; this is the hypothesis \<open>builtByAssignment\<close>.
\<close>

theorem enforceConstraintsOnNode_idempotent:
  assumes "builtByAssignment n"
  shows "enforceConstraintsOnNode
           (enforceConstraintsOnNode n rootDepth rootDepth arrayAllowed depthAllowed allFieldsRequired)
           rootDepth rootDepth arrayAllowed depthAllowed allFieldsRequired
         = enforceConstraintsOnNode n rootDepth rootDepth arrayAllowed depthAllowed allFieldsRequired"
  using assms by (rule enforce_idempotent_at_depth)

theorem enforceConstraintsOnNode_idempotent_witness:
  "enforceConstraintsOnNode
     (enforceConstraintsOnNode
        (ObjectNode (Some ''root'')
           [(''a'', ArrayNode None (PrimitiveNode TNumber None)),
            (''b'', ObjectNode None [(''c'', PrimitiveNode TString None)] None)]
           (Some [''a'', ''zzz'', ''toString'']))
        1 1 False (Some 1) False)
     1 1 False (Some 1) False
   = ObjectNode (Some ''root'')
       [(''a'', PrimitiveNode TString None), (''b'', PrimitiveNode TString None)]
       (Some [''a'', ''toString''])"
proof -
  let ?n = "ObjectNode (Some ''root'')
           [(''a'', ArrayNode None (PrimitiveNode TNumber None)),
            (''b'', ObjectNode None [(''c'', PrimitiveNode TString None)] None)]
           (Some [''a'', ''zzz'', ''toString''])"
  have w: "builtByAssignment ?n" by code_simp
  have v: "enforceConstraintsOnNode ?n 1 1 False (Some 1) False
           = ObjectNode (Some ''root'')
               [(''a'', PrimitiveNode TString None), (''b'', PrimitiveNode TString None)]
               (Some [''a'', ''toString''])"
    by code_simp
  show ?thesis
    using enforceConstraintsOnNode_idempotent[OF w, of 1 False "Some 1" False] unfolding v .
qed

text \<open>
  The hypothesis cannot be dropped from the equation, although no caller passes such a
  node: on a \<open>properties\<close> record with an own property named \<open>__proto__\<close> the
  first pass makes the child the prototype of the new record, so \<open>type\<close> is found
  through it and stays in \<open>required\<close>, and a second pass, which starts from a record
  without that prototype, drops \<open>type\<close>.
\<close>

lemma own_proto_property_is_not_a_fixed_point:
  "enforceConstraintsOnNode
     (ObjectNode None [(''__proto__'', PrimitiveNode TString None)] (Some [''type'']))
     1 1 True None False
   = ObjectNode None [] (Some [''type'']) \<and>
   enforceConstraintsOnNode
     (enforceConstraintsOnNode
        (ObjectNode None [(''__proto__'', PrimitiveNode TString None)] (Some [''type'']))
        1 1 True None False)
     1 1 True None False
   = ObjectNode None [] (Some [])"
  by code_simp

section \<open>Properties of the Recursion Guard\<close>

lemma foldl_keeps_stack:
  "(\<And>call st. call \<in> set calls \<Longrightarrow> f call st = st) \<Longrightarrow> foldl (\<lambda>st call. f call st) stack calls = stack"
  by (induction calls arbitrary: stack) simp_all

lemma agentCall_restores_stack: "fst (agentCall maxDepth t stack) = stack"
proof (induction t arbitrary: stack)
  case (SubTurn agent calls ending)
  show ?case
  proof (cases "enter maxDepth agent stack")
    case (Reject why)
    then show ?thesis by simp
  next
    case (Allow entered)
    then have e: "entered = stack @ [agent]"
      by (simp add: enter_def split: if_splits)
    have "foldl (\<lambda>st call. fst (agentCall maxDepth call st)) entered calls = entered"
      by (rule foldl_keeps_stack) (rule SubTurn.IH)
    then show ?thesis using Allow by (simp add: leave_def e)
  qed
qed

text \<open>
  Claim C4. \<open>enter\<close> rejects an agent id that is already in the call stack (cycle)
  and a push that would exceed the maximum depth, and otherwise pushes and allows;
  and an agent-executor call leaves the stack as it found it, however its sub-turn and
  the calls nested in it end (completion, error, cancellation or rejection).
\<close>

theorem recursion_guard:
  "(agent \<in> set stack \<longrightarrow> enter maxDepth agent stack = Reject Cycle) \<and>
   (agent \<notin> set stack \<and> maxDepth < length stack + 1 \<longrightarrow> enter maxDepth agent stack = Reject DepthExceeded) \<and>
   (agent \<notin> set stack \<and> length stack + 1 \<le> maxDepth \<longrightarrow> enter maxDepth agent stack = Allow (stack @ [agent])) \<and>
   fst (agentCall maxDepth t stack) = stack \<and>
   length (fst (agentCall maxDepth t stack)) = length stack"
  by (simp add: enter_def agentCall_restores_stack)

theorem recursion_guard_witness:
  "enter 5 ''B'' [''A''] = Allow [''A'', ''B''] \<and>
   enter 5 ''A'' [''A'', ''B''] = Reject Cycle \<and>
   enter 2 ''C'' [''A'', ''B''] = Reject DepthExceeded \<and>
   agentCall 5 (SubTurn ''B'' [SubTurn ''A'' [] (Completed ''never runs''),
                               SubTurn ''C'' [] (Failed ''timeout'')] Cancelled) [''A'']
     = ([''A''], Ended Cancelled)"
proof -
  have a: "''B'' \<notin> set [''A''] \<and> length [''A''] + 1 \<le> (5::nat)" by simp
  have b: "''A'' \<in> set [''A'', ''B'']" by simp
  have c: "''C'' \<notin> set [''A'', ''B''] \<and> (2::nat) < length [''A'', ''B''] + 1" by simp
  let ?t = "SubTurn ''B'' [SubTurn ''A'' [] (Completed ''never runs''),
                           SubTurn ''C'' [] (Failed ''timeout'')] Cancelled"
  have 1: "enter 5 ''B'' [''A''] = Allow ([''A''] @ [''B''])"
    using recursion_guard[of "''B''" "[''A'']" 5 ?t] a by blast
  have 2: "enter 5 ''A'' [''A'', ''B''] = Reject Cycle"
    using recursion_guard[of "''A''" "[''A'', ''B'']" 5 ?t] b by blast
  have 3: "enter 2 ''C'' [''A'', ''B''] = Reject DepthExceeded"
    using recursion_guard[of "''C''" "[''A'', ''B'']" 2 ?t] c by blast
  have 4: "fst (agentCall 5 ?t [''A'']) = [''A'']"
    using recursion_guard[of "''B''" "[''A'']" 5 ?t] by blast
  have 5: "snd (agentCall 5 ?t [''A'']) = Ended Cancelled"
    by code_simp
  have 6: "agentCall 5 ?t [''A''] = ([''A''], Ended Cancelled)"
    using 4 5 by (simp add: prod_eq_iff)
  show ?thesis using 1 2 3 6 by simp
qed

end
